theory Spec2Isabelle
  imports Main "HOL-Library.Log_Nat" "HOL-Library.Multiset"
begin

section \<open>The feed, as the JSON decoder hands it to the three report functions\<close>

text \<open>
  The program (\<^verbatim>\<open>tt_exercise.py\<close>) reads the NeoWs feed: a JSON object whose member
  \<^verbatim>\<open>near_earth_objects\<close> is a dict from a date string to a list of asteroids. A Python
  dict iterates in insertion order and \<^verbatim>\<open>for date in d: ... d[date]\<close> visits every
  key with its value, so the dict is an association list visited pair by pair.
  The members an asteroid is read for are the fields of the records below; the member
  \<^verbatim>\<open>relative_velocity.kilometers_per_second\<close> is the JSON string the feed sends.
\<close>

record close_approach =
  close_approach_date_full :: string
  kilometers_per_second :: string

record asteroid =
  name :: string
  id_str :: string
  is_potentially_hazardous_asteroid :: bool
  close_approach_data :: "close_approach list"

type_synonym neo = "(string \<times> asteroid list) list"

text \<open>
  What \<^verbatim>\<open>response.json()\<close> and \<^verbatim>\<open>data['near_earth_objects']\<close> can meet: a body that is
  not JSON, a JSON object without the member, or the feed.
\<close>

datatype payload = Undecodable | Document "neo option"

record response =
  status_code :: int
  reason :: string
  body :: payload

text \<open>
  The exceptions of the program. \<open>Exception\<close> is the one it raises itself, with its
  message; the others are raised by the built-ins it calls. \<open>EmptyDatasetError\<close> is
  the error the specification names for an empty dataset: it is in the type so that
  a statement can speak of it, and no function below returns it.
\<close>

datatype py_error =
    Exception string
  | ValueError
  | ZeroDivisionError
  | IndexError
  | KeyError string
  | JSONDecodeError
  | OverflowError
  | EmptyDatasetError

text \<open>
  The world a report function acts on: the GET requests issued so far (each the
  pair of its \<^verbatim>\<open>start_date\<close> and \<^verbatim>\<open>end_date\<close> parameters, oldest first; the API key
  is a constant of the program) and the lines printed so far. The remote service is
  a function from a request to its response.
\<close>

record world =
  requests :: "(string \<times> string) list"
  stdout :: "string list"

type_synonym service = "string \<times> string \<Rightarrow> response"

definition print :: "string \<Rightarrow> world \<Rightarrow> world" where
  "print s w = w\<lparr>stdout := stdout w @ [s]\<rparr>"

definition get :: "service \<Rightarrow> string \<Rightarrow> string \<Rightarrow> world \<Rightarrow> response \<times> world" where
  "get net start_date end_date w =
     (net (start_date, end_date), w\<lparr>requests := requests w @ [(start_date, end_date)]\<rparr>)"

subsection \<open>Python's \<^verbatim>\<open>str\<close> of an integer\<close>

definition digit_char :: "nat \<Rightarrow> char" where
  "digit_char n = ''0123456789'' ! n"

fun str_nat :: "nat \<Rightarrow> string" where
  "str_nat n = (if n < 10 then [digit_char n] else str_nat (n div 10) @ [digit_char (n mod 10)])"

declare str_nat.simps [simp del]

definition str_int :: "int \<Rightarrow> string" where
  "str_int i = (if i < 0 then CHR ''-'' # str_nat (nat (- i)) else str_nat (nat i))"

text \<open>The message of the exception both date-range reports raise on a status other than 200.\<close>

definition error_message :: "response \<Rightarrow> string" where
  "error_message r = ''Error '' @ str_int (status_code r) @ '': '' @ reason r"

text \<open>Reading the feed out of a response whose status has been accepted.\<close>

definition near_earth_objects :: "response \<Rightarrow> py_error + neo" where
  "near_earth_objects r =
     (case body r of
        Undecodable \<Rightarrow> Inl JSONDecodeError
      | Document None \<Rightarrow> Inl (KeyError ''near_earth_objects'')
      | Document (Some objects) \<Rightarrow> Inr objects)"

section \<open>\<^verbatim>\<open>display_asteroid_information\<close>\<close>

fun print_close_approaches :: "close_approach list \<Rightarrow> world \<Rightarrow> world" where
  "print_close_approaches [] w = w"
| "print_close_approaches (c # cs) w =
     print_close_approaches cs
       (print (''Close approach date (full): '' @ close_approach_date_full c) w)"

fun print_asteroids :: "asteroid list \<Rightarrow> world \<Rightarrow> world" where
  "print_asteroids [] w = w"
| "print_asteroids (a # as) w =
     print_asteroids as
       (print_close_approaches (close_approach_data a)
         (print (''ID: '' @ id_str a)
           (print (''Name: '' @ name a)
             (print '' ---------- '' w))))"

fun print_dates :: "neo \<Rightarrow> world \<Rightarrow> world" where
  "print_dates [] w = w"
| "print_dates ((date, asteroids) # rest) w =
     print_dates rest
       (print ''''
         (print_asteroids asteroids
           (print (''---------- Asteroids approach date: '' @ date @ '' ----------'') w)))"

definition display_asteroid_information ::
    "service \<Rightarrow> string \<Rightarrow> string \<Rightarrow> world \<Rightarrow> (py_error + unit) \<times> world" where
  "display_asteroid_information net start_date end_date w =
     (case get net start_date end_date w of (r, w1) \<Rightarrow>
        if status_code r = 200 then
          (case near_earth_objects r of
             Inl e \<Rightarrow> (Inl e, w1)
           | Inr objects \<Rightarrow> (Inr (), print_dates objects w1))
        else (Inl (Exception (error_message r)), w1))"

section \<open>\<^verbatim>\<open>display_recent_hazardous_asteroids\<close>\<close>

subsection \<open>Dates\<close>

text \<open>
  A \<^verbatim>\<open>datetime\<close> is its proleptic Gregorian ordinal (day 1 is 0001-01-01), as CPython
  itself computes with it; the time of day, which subtracting whole days leaves alone,
  is left out. \<^verbatim>\<open>d - timedelta(days=k)\<close> raises \<^verbatim>\<open>OverflowError\<close> when the result
  leaves the range of \<^verbatim>\<open>datetime\<close>, ordinals 1 to 3652059.
\<close>

definition minus_days :: "int \<Rightarrow> int \<Rightarrow> py_error + int" where
  "minus_days d k =
     (let r = d - k in if 0 < r \<and> r \<le> 3652059 then Inr r else Inl OverflowError)"

text \<open>
  \<^verbatim>\<open>strftime('%Y-%m-%d')\<close>: the year, month and day of an ordinal, by the steps of
  CPython's \<^verbatim>\<open>_ord2ymd\<close>, the month and the day padded to two digits. The year is
  written as the C library of Linux writes it, without padding; a year from 1000 on
  reads the same on every platform.
\<close>

definition days_before_month :: "int list" where
  "days_before_month = [-1, 0, 31, 59, 90, 120, 151, 181, 212, 243, 273, 304, 334]"

definition days_in_month :: "int list" where
  "days_in_month = [-1, 31, 28, 31, 30, 31, 30, 31, 31, 30, 31, 30, 31]"

definition ord2ymd :: "int \<Rightarrow> int \<times> int \<times> int" where
  "ord2ymd ordinal =
     (let n = ordinal - 1;
          n400 = n div 146097; n = n mod 146097;
          n100 = n div 36524; n = n mod 36524;
          n4 = n div 1461; n = n mod 1461;
          n1 = n div 365; n = n mod 365;
          year = n400 * 400 + 1 + (n100 * 100 + n4 * 4 + n1)
      in if n1 = 4 \<or> n100 = 4 then (year - 1, 12, 31)
         else
           let leapyear = (n1 = 3 \<and> (n4 \<noteq> 24 \<or> n100 = 3));
               month = (n + 50) div 32;
               preceding =
                 days_before_month ! nat month + (if 2 < month \<and> leapyear then 1 else 0)
           in if n < preceding then
                let month = month - 1;
                    preceding = preceding -
                      (days_in_month ! nat month + (if month = 2 \<and> leapyear then 1 else 0))
                in (year, month, n - preceding + 1)
              else (year, month, n - preceding + 1))"

definition zfill :: "nat \<Rightarrow> string \<Rightarrow> string" where
  "zfill k s = replicate (k - length s) CHR ''0'' @ s"

definition strftime :: "int \<Rightarrow> string" where
  "strftime d =
     (case ord2ymd d of (y, m, dd) \<Rightarrow>
        str_int y @ ''-'' @ zfill 2 (str_int m) @ ''-'' @ zfill 2 (str_int dd))"

subsection \<open>The scan\<close>

type_synonym found = "(string \<times> string) list"

text \<open>The loop over the asteroids of one date: every hazardous one is appended.\<close>

fun append_hazardous :: "string \<Rightarrow> asteroid list \<Rightarrow> found \<Rightarrow> found" where
  "append_hazardous date [] hazardous_asteroids = hazardous_asteroids"
| "append_hazardous date (a # as) hazardous_asteroids =
     append_hazardous date as
       (if is_potentially_hazardous_asteroid a then hazardous_asteroids @ [(date, name a)]
        else hazardous_asteroids)"

text \<open>The loop over the dates of one response, with its \<^verbatim>\<open>break\<close>.\<close>

fun extract_hazardous :: "neo \<Rightarrow> found \<Rightarrow> found" where
  "extract_hazardous [] hazardous_asteroids = hazardous_asteroids"
| "extract_hazardous ((date, asteroids) # rest) hazardous_asteroids =
     (let found = append_hazardous date asteroids hazardous_asteroids
      in if 3 \<le> length found then found else extract_hazardous rest found)"

text \<open>
  The \<^verbatim>\<open>while\<close> loop. Its guard is evaluated left to right: the length first, then
  \<^verbatim>\<open>end_date - timedelta(days=30)\<close>, which may raise, then the comparison. The body
  issues the request, decodes the body whatever the status is, scans it and moves
  \<^verbatim>\<open>end_date\<close>, then \<^verbatim>\<open>start_date\<close>, one day back.
\<close>

function query_loop ::
    "service \<Rightarrow> int \<Rightarrow> int \<Rightarrow> found \<Rightarrow> world \<Rightarrow> (py_error + found) \<times> world" where
  "query_loop net start_date end_date hazardous_asteroids w =
     (if \<not> length hazardous_asteroids < 3 then (Inr hazardous_asteroids, w)
      else
        (case minus_days end_date 30 of
           Inl e \<Rightarrow> (Inl e, w)
         | Inr limit \<Rightarrow>
             if \<not> limit < start_date then (Inr hazardous_asteroids, w)
             else
               (case get net (strftime start_date) (strftime end_date) w of (r, w1) \<Rightarrow>
                  (case near_earth_objects r of
                     Inl e \<Rightarrow> (Inl e, w1)
                   | Inr objects \<Rightarrow>
                       (let found = extract_hazardous objects hazardous_asteroids in
                          (case minus_days end_date 1 of
                             Inl e \<Rightarrow> (Inl e, w1)
                           | Inr end_date' \<Rightarrow>
                               (case minus_days start_date 1 of
                                  Inl e \<Rightarrow> (Inl e, w1)
                                | Inr start_date' \<Rightarrow>
                                    query_loop net start_date' end_date' found w1)))))))"
  by pat_completeness auto
termination
  by (relation "measure (\<lambda>(net, start_date, end_date, found, w). nat end_date)")
    (auto simp add: minus_days_def Let_def split: if_splits)

declare query_loop.simps [simp del]

fun print_found :: "found \<Rightarrow> world \<Rightarrow> world" where
  "print_found [] w = w"
| "print_found ((date, nm) # rest) w = print_found rest (print (date @ '': '' @ nm) w)"

text \<open>
  The function reads the clock twice: \<open>today\<close> when it sets the first window up, and
  \<open>today_at_print\<close> for the header of the report.
\<close>

definition display_recent_hazardous_asteroids ::
    "service \<Rightarrow> int \<Rightarrow> int \<Rightarrow> world \<Rightarrow> (py_error + unit) \<times> world" where
  "display_recent_hazardous_asteroids net today today_at_print w =
     (case minus_days today 1 of
        Inl e \<Rightarrow> (Inl e, w)
      | Inr start_date \<Rightarrow>
          (case query_loop net start_date today [] w of
             (Inl e, w1) \<Rightarrow> (Inl e, w1)
           | (Inr hazardous_asteroids, w1) \<Rightarrow>
               (Inr (),
                print_found hazardous_asteroids
                  (print (''The three most recent hazardous asteroids As of today '' @
                     strftime today_at_print @ '' are:'') w1))))"

text \<open>
  For the statements below: the entries one date bucket contributes to the report,
  its hazardous asteroids in the order of the feed, each with the bucket's date.
\<close>

definition hazardous_entries :: "string \<times> asteroid list \<Rightarrow> found" where
  "hazardous_entries bucket =
     map (\<lambda>a. (fst bucket, name a)) (filter is_potentially_hazardous_asteroid (snd bucket))"

section \<open>Python floats\<close>

text \<open>
  A Python \<^verbatim>\<open>float\<close> is an IEEE 754 binary64 number: a finite value, an infinity or NaN.
  A finite value is the rational it denotes, and the two zeros, which compare equal,
  are one value. An operation computes the exact rational result and rounds it to the
  nearest representable value, a tie going to the value whose last bit is even; a
  result of magnitude \<open>2 ^ 1024\<close> or more is an infinity.
\<close>

datatype pyfloat = Fin rat | PInf | NInf | NaN

definition pow2 :: "int \<Rightarrow> rat" where
  "pow2 e = (if 0 \<le> e then 2 ^ nat e else 1 / 2 ^ nat (- e))"

text \<open>The exponent \<open>e\<close> with \<open>2 ^ e \<le> x < 2 ^ (e + 1)\<close>, for a positive \<open>x\<close>.\<close>

definition ilog2 :: "rat \<Rightarrow> int" where
  "ilog2 x = (if 1 \<le> x then bitlen \<lfloor>x\<rfloor> - 1 else - bitlen (\<lceil>1 / x\<rceil> - 1))"

definition round_half_even :: "rat \<Rightarrow> int" where
  "round_half_even q =
     (let f = \<lfloor>q\<rfloor>; d = q - of_int f
      in if d < 1 / 2 then f else if 1 / 2 < d then f + 1 else if even f then f else f + 1)"

text \<open>
  The spacing of the representable values around a positive \<open>a\<close>: 53 significant
  bits, and the fixed spacing \<open>2 ^ - 1074\<close> of the subnormal range below \<open>2 ^ - 1022\<close>.
\<close>

definition grid :: "rat \<Rightarrow> rat" where
  "grid a = pow2 (max (ilog2 a) (- 1022) - 52)"

definition nearest :: "rat \<Rightarrow> rat" where
  "nearest x =
     (if x = 0 then 0
      else sgn x * (of_int (round_half_even (\<bar>x\<bar> / grid \<bar>x\<bar>)) * grid \<bar>x\<bar>))"

definition rnd :: "rat \<Rightarrow> pyfloat" where
  "rnd x =
     (let r = nearest x
      in if pow2 1024 \<le> r then PInf else if r \<le> - pow2 1024 then NInf else Fin r)"

text \<open>A float that is finite: the rational of a representable value.\<close>

definition finite_float :: "pyfloat \<Rightarrow> bool" where
  "finite_float v = (case v of Fin r \<Rightarrow> rnd r = Fin r | _ \<Rightarrow> False)"

text \<open>A finite float whose double is still finite: its magnitude is below \<open>2 ^ 1023\<close>.\<close>

definition below_overflow :: "pyfloat \<Rightarrow> bool" where
  "below_overflow v = (case v of Fin r \<Rightarrow> \<bar>r\<bar> < pow2 1023 | _ \<Rightarrow> False)"

fun fadd :: "pyfloat \<Rightarrow> pyfloat \<Rightarrow> pyfloat" where
  "fadd (Fin a) (Fin b) = rnd (a + b)"
| "fadd NaN y = NaN"
| "fadd x NaN = NaN"
| "fadd PInf NInf = NaN"
| "fadd NInf PInf = NaN"
| "fadd PInf y = PInf"
| "fadd x PInf = PInf"
| "fadd NInf y = NInf"
| "fadd x NInf = NInf"

text \<open>The comparisons \<^verbatim>\<open><\<close> and \<^verbatim>\<open><=\<close>; every comparison with NaN is false.\<close>

fun flt :: "pyfloat \<Rightarrow> pyfloat \<Rightarrow> bool" where
  "flt (Fin a) (Fin b) = (a < b)"
| "flt NaN y = False"
| "flt x NaN = False"
| "flt x NInf = False"
| "flt NInf y = True"
| "flt PInf y = False"
| "flt x PInf = True"

fun fle :: "pyfloat \<Rightarrow> pyfloat \<Rightarrow> bool" where
  "fle (Fin a) (Fin b) = (a \<le> b)"
| "fle NaN y = False"
| "fle x NaN = False"
| "fle NInf y = True"
| "fle x PInf = True"
| "fle x NInf = False"
| "fle PInf y = False"

text \<open>\<^verbatim>\<open>x / y\<close> on floats: Python raises on a zero divisor.\<close>

definition truediv :: "pyfloat \<Rightarrow> pyfloat \<Rightarrow> py_error + pyfloat" where
  "truediv x y =
     (case y of
        Fin b \<Rightarrow>
          if b = 0 then Inl ZeroDivisionError
          else Inr (case x of
                      Fin a \<Rightarrow> rnd (a / b)
                    | PInf \<Rightarrow> if 0 < b then PInf else NInf
                    | NInf \<Rightarrow> if 0 < b then NInf else PInf
                    | NaN \<Rightarrow> NaN)
      | NaN \<Rightarrow> Inr NaN
      | _ \<Rightarrow> Inr (case x of Fin a \<Rightarrow> Fin 0 | _ \<Rightarrow> NaN))"

text \<open>
  The conversion of an \<^verbatim>\<open>int\<close> operand, and \<^verbatim>\<open>x / n\<close> for a float \<open>x\<close> and an
  \<^verbatim>\<open>int\<close> \<open>n\<close>: the operand is converted, then divided by.
\<close>

definition float_of_int :: "int \<Rightarrow> py_error + pyfloat" where
  "float_of_int n = (case rnd (of_int n) of Fin r \<Rightarrow> Inr (Fin r) | _ \<Rightarrow> Inl OverflowError)"

definition truediv_int :: "pyfloat \<Rightarrow> int \<Rightarrow> py_error + pyfloat" where
  "truediv_int x n = (case float_of_int n of Inl e \<Rightarrow> Inl e | Inr d \<Rightarrow> truediv x d)"

subsection \<open>The built-ins on lists of floats\<close>

text \<open>
  \<^verbatim>\<open>max\<close> and \<^verbatim>\<open>min\<close> keep the first element and replace it by a later one that
  compares greater, or less; on an empty list they raise \<^verbatim>\<open>ValueError\<close>.
\<close>

fun py_max :: "pyfloat list \<Rightarrow> py_error + pyfloat" where
  "py_max [] = Inl ValueError"
| "py_max (x # xs) = Inr (foldl (\<lambda>m v. if flt m v then v else m) x xs)"

fun py_min :: "pyfloat list \<Rightarrow> py_error + pyfloat" where
  "py_min [] = Inl ValueError"
| "py_min (x # xs) = Inr (foldl (\<lambda>m v. if flt v m then v else m) x xs)"

text \<open>
  \<^verbatim>\<open>sum\<close> adds the elements to 0 from left to right, each addition rounded. (From
  version 3.12 on, CPython also carries a compensation term through the loop.)
\<close>

definition py_sum :: "pyfloat list \<Rightarrow> pyfloat" where
  "py_sum xs = foldl fadd (Fin 0) xs"

text \<open>
  \<^verbatim>\<open>sorted\<close> is a stable sort that compares with \<^verbatim>\<open><\<close> only. It is the insertion
  sort below on every list whose elements \<^verbatim>\<open><\<close> orders, that is, a list without NaN.
\<close>

fun insort_lt :: "pyfloat \<Rightarrow> pyfloat list \<Rightarrow> pyfloat list" where
  "insort_lt x [] = [x]"
| "insort_lt x (y # ys) = (if flt y x then y # insort_lt x ys else x # y # ys)"

definition py_sorted :: "pyfloat list \<Rightarrow> pyfloat list" where
  "py_sorted xs = foldr insort_lt xs []"

text \<open>\<^verbatim>\<open>xs[i]\<close>: an index below 0 counts from the end of the list.\<close>

definition py_index :: "'a list \<Rightarrow> int \<Rightarrow> py_error + 'a" where
  "py_index xs i =
     (let j = (if i < 0 then i + int (length xs) else i)
      in if j < 0 \<or> int (length xs) \<le> j then Inl IndexError else Inr (xs ! nat j))"

text \<open>
  The format \<^verbatim>\<open>:.2f\<close>: the exact value rounded to two decimals, a tie going to the
  even digit.
\<close>

definition format_2f :: "pyfloat \<Rightarrow> string" where
  "format_2f v =
     (case v of
        Fin r \<Rightarrow>
          (let n = round_half_even (\<bar>r\<bar> * 100)
           in (if r < 0 then ''-'' else '''') @
              str_int (n div 100) @ ''.'' @ zfill 2 (str_int (n mod 100)))
      | PInf \<Rightarrow> ''inf''
      | NInf \<Rightarrow> ''-inf''
      | NaN \<Rightarrow> ''nan'')"

section \<open>\<^verbatim>\<open>display_asteroid_properties\<close>\<close>

text \<open>
  The built-in \<^verbatim>\<open>float\<close>, which reads the decimal string of a velocity, is the
  parameter \<open>float\<close> of the functions below: it returns the float, or the exception
  that \<^verbatim>\<open>float\<close> raises on a string it rejects.
\<close>

fun asteroid_velocities ::
    "(string \<Rightarrow> py_error + pyfloat) \<Rightarrow> asteroid list \<Rightarrow> pyfloat list \<Rightarrow>
      py_error + pyfloat list" where
  "asteroid_velocities float [] velocities = Inr velocities"
| "asteroid_velocities float (a # as) velocities =
     (case py_index (close_approach_data a) 0 of
        Inl e \<Rightarrow> Inl e
      | Inr c \<Rightarrow>
          (case float (kilometers_per_second c) of
             Inl e \<Rightarrow> Inl e
           | Inr relative_velocity \<Rightarrow>
               asteroid_velocities float as (velocities @ [relative_velocity])))"

fun extract_velocities ::
    "(string \<Rightarrow> py_error + pyfloat) \<Rightarrow> neo \<Rightarrow> pyfloat list \<Rightarrow> py_error + pyfloat list" where
  "extract_velocities float [] velocities = Inr velocities"
| "extract_velocities float ((date, asteroids) # rest) velocities =
     (case asteroid_velocities float asteroids velocities of
        Inl e \<Rightarrow> Inl e
      | Inr velocities' \<Rightarrow> extract_velocities float rest velocities')"

record statistics =
  fastest_velocity :: pyfloat
  slowest_velocity :: pyfloat
  mean_velocity :: pyfloat
  median_velocity :: pyfloat

text \<open>The median of the sorted list, lines 89 to 94 of the program.\<close>

definition median_of :: "pyfloat list \<Rightarrow> py_error + pyfloat" where
  "median_of sorted_velocities =
     (let n = int (length sorted_velocities)
      in if n mod 2 \<noteq> 0 then py_index sorted_velocities (n div 2)
         else
           (case py_index sorted_velocities (n div 2) of
              Inl e \<Rightarrow> Inl e
            | Inr upper \<Rightarrow>
                (case py_index sorted_velocities (n div 2 - 1) of
                   Inl e \<Rightarrow> Inl e
                 | Inr lower \<Rightarrow> truediv_int (fadd upper lower) 2)))"

text \<open>The four aggregates, lines 80 to 94, in the order the program computes them.\<close>

definition velocity_statistics :: "pyfloat list \<Rightarrow> py_error + statistics" where
  "velocity_statistics velocities =
     (case py_max velocities of
        Inl e \<Rightarrow> Inl e
      | Inr fastest \<Rightarrow>
          (case py_min velocities of
             Inl e \<Rightarrow> Inl e
           | Inr slowest \<Rightarrow>
               (case truediv_int (py_sum velocities) (int (length velocities)) of
                  Inl e \<Rightarrow> Inl e
                | Inr mean \<Rightarrow>
                    (case median_of (py_sorted velocities) of
                       Inl e \<Rightarrow> Inl e
                     | Inr median \<Rightarrow>
                         Inr \<lparr>fastest_velocity = fastest, slowest_velocity = slowest,
                              mean_velocity = mean, median_velocity = median\<rparr>))))"

definition print_statistics :: "statistics \<Rightarrow> world \<Rightarrow> world" where
  "print_statistics s w =
     print (''Median velocity: '' @ format_2f (median_velocity s) @ '' kilometers_per_second'')
       (print (''Mean velocity: '' @ format_2f (mean_velocity s) @ '' kilometers_per_second'')
         (print (''Slowest velocity: '' @ format_2f (slowest_velocity s) @
              '' kilometers_per_second'')
           (print (''Fastest velocity: '' @ format_2f (fastest_velocity s) @
                '' kilometers_per_second'') w)))"

definition display_asteroid_properties ::
    "(string \<Rightarrow> py_error + pyfloat) \<Rightarrow> service \<Rightarrow> string \<Rightarrow> string \<Rightarrow> world \<Rightarrow>
      (py_error + unit) \<times> world" where
  "display_asteroid_properties float net start_date end_date w =
     (case get net start_date end_date w of (r, w1) \<Rightarrow>
        if status_code r = 200 then
          (case near_earth_objects r of
             Inl e \<Rightarrow> (Inl e, w1)
           | Inr objects \<Rightarrow>
               (case extract_velocities float objects [] of
                  Inl e \<Rightarrow> (Inl e, w1)
                | Inr velocities \<Rightarrow>
                    (case velocity_statistics velocities of
                       Inl e \<Rightarrow> (Inl e, w1)
                     | Inr s \<Rightarrow> (Inr (), print_statistics s w1))))
        else (Inl (Exception (error_message r)), w1))"

section \<open>Inputs of the examples\<close>

definition empty_world :: world where
  "empty_world = \<lparr>requests = [], stdout = []\<rparr>"

definition quiet_service :: service where
  "quiet_service = (\<lambda>q. \<lparr>status_code = 200, reason = ''OK'', body = Document (Some [])\<rparr>)"

definition throttled_service :: service where
  "throttled_service =
     (\<lambda>q. \<lparr>status_code = 429, reason = ''Too Many Requests'', body = Document None\<rparr>)"

definition rock :: "string \<Rightarrow> bool \<Rightarrow> asteroid" where
  "rock nm hazardous =
     \<lparr>name = nm, id_str = ''0'', is_potentially_hazardous_asteroid = hazardous,
      close_approach_data = []\<rparr>"

definition failing_service :: service where
  "failing_service =
     (\<lambda>q. \<lparr>status_code = 500, reason = ''Internal Server Error'',
        body = Document (Some [(''2023-06-15'', [rock ''A'' True, rock ''B'' True, rock ''C'' True])])\<rparr>)"

definition two_day_service :: service where
  "two_day_service =
     (\<lambda>q. \<lparr>status_code = 200, reason = ''OK'',
        body = Document (Some
          (if q = (''2023-06-14'', ''2023-06-15'')
           then [(''2023-06-15'', [rock ''A'' True, rock ''B'' False]),
                 (''2023-06-14'', [rock ''D'' True])]
           else [(''2023-06-14'', [rock ''D'' True, rock ''E'' True]),
                 (''2023-06-13'', [rock ''F'' True])]))\<rparr>)"

text \<open>A service that answers 404, and a reader of floats that knows two strings.\<close>

definition missing_service :: service where
  "missing_service = (\<lambda>q. \<lparr>status_code = 404, reason = ''Not Found'', body = Undecodable\<rparr>)"

definition float_table :: "string \<Rightarrow> py_error + pyfloat" where
  "float_table s =
     (if s = ''0.1'' then Inr (Fin (3602879701896397 / 36028797018963968))
      else if s = ''1.5'' then Inr (Fin (3 / 2))
      else Inl ValueError)"

text \<open>
  The floats that Python writes \<^verbatim>\<open>0.1\<close>, \<^verbatim>\<open>0.2\<close> and \<^verbatim>\<open>0.3\<close>, and the float
  \<open>2 ^ 1023\<close>, about \<^verbatim>\<open>8.99e307\<close>, with its negation.
\<close>

definition f01 :: pyfloat where
  "f01 = Fin (3602879701896397 / 36028797018963968)"

definition f02 :: pyfloat where
  "f02 = Fin (3602879701896397 / 18014398509481984)"

definition f03 :: pyfloat where
  "f03 = Fin (5404319552844595 / 18014398509481984)"

definition huge :: pyfloat where
  "huge = Fin (2 ^ 1023)"

definition minus_huge :: pyfloat where
  "minus_huge = Fin (- (2 ^ 1023))"

section \<open>Properties of \<^verbatim>\<open>display_asteroid_information\<close>\<close>

lemma print_close_approaches_eq:
  "print_close_approaches cs w =
     w\<lparr>stdout := stdout w @
       map (\<lambda>c. ''Close approach date (full): '' @ close_approach_date_full c) cs\<rparr>"
  by (induction cs arbitrary: w) (simp_all add: print_def)

lemma print_asteroids_eq:
  "print_asteroids as w =
     w\<lparr>stdout := stdout w @
       concat (map (\<lambda>a. ['' ---------- '', ''Name: '' @ name a, ''ID: '' @ id_str a] @
         map (\<lambda>c. ''Close approach date (full): '' @ close_approach_date_full c)
           (close_approach_data a)) as)\<rparr>"
  by (induction as arbitrary: w) (simp_all add: print_def print_close_approaches_eq)

lemma print_dates_eq:
  "print_dates objects w =
     w\<lparr>stdout := stdout w @
       concat (map (\<lambda>(date, asteroids).
         [''---------- Asteroids approach date: '' @ date @ '' ----------''] @
         concat (map (\<lambda>a. ['' ---------- '', ''Name: '' @ name a, ''ID: '' @ id_str a] @
           map (\<lambda>c. ''Close approach date (full): '' @ close_approach_date_full c)
             (close_approach_data a)) asteroids) @
         ['''']) objects)\<rparr>"
  by (induction objects arbitrary: w) (auto simp add: print_def print_asteroids_eq)

text \<open>
  Claim C7. On a response with status 200 that carries a feed,
  \<^verbatim>\<open>display_asteroid_information\<close> issues its one request and prints, for every date key
  in the order of the response, the section header with the date, then for every
  asteroid of that date the separator, its name, its id and one line for every entry
  of its \<^verbatim>\<open>close_approach_data\<close> (all of them, in order) with that entry's
  \<^verbatim>\<open>close_approach_date_full\<close>, and an empty line after the date's asteroids.
\<close>

theorem lister_prints_every_date_asteroid_and_approach:
  assumes "status_code (net (start_date, end_date)) = 200"
    and "body (net (start_date, end_date)) = Document (Some objects)"
  shows "display_asteroid_information net start_date end_date w =
    (Inr (),
     w\<lparr>requests := requests w @ [(start_date, end_date)],
       stdout := stdout w @
         concat (map (\<lambda>(date, asteroids).
           [''---------- Asteroids approach date: '' @ date @ '' ----------''] @
           concat (map (\<lambda>a. ['' ---------- '', ''Name: '' @ name a, ''ID: '' @ id_str a] @
             map (\<lambda>c. ''Close approach date (full): '' @ close_approach_date_full c)
               (close_approach_data a)) asteroids) @
           ['''']) objects)\<rparr>)"
  using assms
  by (simp add: display_asteroid_information_def get_def near_earth_objects_def print_dates_eq)

text \<open>The single-asteroid feed of the specification's end-to-end scenario.\<close>

theorem lister_single_asteroid_feed:
  "display_asteroid_information
     (\<lambda>q. \<lparr>status_code = 200, reason = ''OK'',
        body = Document (Some [(''2019-10-31'',
          [\<lparr>name = ''A'', id_str = ''1'', is_potentially_hazardous_asteroid = False,
            close_approach_data =
              [\<lparr>close_approach_date_full = ''2019-Oct-31 00:00'',
                kilometers_per_second = ''1.5''\<rparr>]\<rparr>])])\<rparr>)
     ''2019-10-31'' ''2019-10-31'' \<lparr>requests = [], stdout = []\<rparr> =
   (Inr (),
    \<lparr>requests = [(''2019-10-31'', ''2019-10-31'')],
     stdout = [''---------- Asteroids approach date: 2019-10-31 ----------'',
       '' ---------- '', ''Name: A'', ''ID: 1'',
       ''Close approach date (full): 2019-Oct-31 00:00'', '''']\<rparr>)"
  using lister_prints_every_date_asteroid_and_approach
    [of "\<lambda>q. \<lparr>status_code = 200, reason = ''OK'',
        body = Document (Some [(''2019-10-31'',
          [\<lparr>name = ''A'', id_str = ''1'', is_potentially_hazardous_asteroid = False,
            close_approach_data =
              [\<lparr>close_approach_date_full = ''2019-Oct-31 00:00'',
                kilometers_per_second = ''1.5''\<rparr>]\<rparr>])])\<rparr>"
      "''2019-10-31''" "''2019-10-31''" _ "\<lparr>requests = [], stdout = []\<rparr>"]
  by simp

section \<open>Properties of \<^verbatim>\<open>display_recent_hazardous_asteroids\<close>\<close>

lemma append_hazardous_eq:
  "append_hazardous date as found = found @ hazardous_entries (date, as)"
  by (induction as arbitrary: found) (simp_all add: hazardous_entries_def)

lemma extract_hazardous_all:
  "length (found @ concat (map hazardous_entries objects)) < 3 \<Longrightarrow>
   extract_hazardous objects found = found @ concat (map hazardous_entries objects)"
  by (induction objects arbitrary: found) (auto simp add: append_hazardous_eq Let_def)

lemma extract_hazardous_break:
  "length (found @ concat (map hazardous_entries earlier)) < 3 \<Longrightarrow>
   3 \<le> length (found @ concat (map hazardous_entries earlier) @ hazardous_entries (date, asteroids)) \<Longrightarrow>
   extract_hazardous (earlier @ (date, asteroids) # later) found =
     found @ concat (map hazardous_entries earlier) @ hazardous_entries (date, asteroids)"
  by (induction earlier arbitrary: found) (auto simp add: append_hazardous_eq Let_def)

lemma print_found_eq:
  "print_found found w = w\<lparr>stdout := stdout w @ map (\<lambda>(date, nm). date @ '': '' @ nm) found\<rparr>"
  by (induction found arbitrary: w) (auto simp add: print_def)

text \<open>The loop prints nothing.\<close>

lemma query_loop_stdout: "stdout (snd (query_loop net s e found w)) = stdout w"
proof (induction net s e found w rule: query_loop.induct)
  case (1 net s e found w)
  show ?case
    apply (subst query_loop.simps)
    using 1
    by (auto simp add: get_def Let_def split: sum.splits prod.splits)
qed

lemma minus_days_Inr: "minus_days d k = Inr r \<Longrightarrow> r = d - k \<and> 0 < r"
  by (auto simp add: minus_days_def Let_def split: if_splits)

lemma window_map_Suc:
  "map (\<lambda>k. (strftime (s - int k), strftime (e - int k))) [0..<Suc n] =
     (strftime s, strftime e) #
       map (\<lambda>k. (strftime (s - 1 - int k), strftime (e - 1 - int k))) [0..<n]"
  by (simp add: map_upt_Suc del: upt_Suc) (simp add: algebra_simps)

lemma query_loop_requests:
  "\<exists>n. requests (snd (query_loop net s e found w)) =
     requests w @ map (\<lambda>k. (strftime (s - int k), strftime (e - int k))) [0..<n]"
proof (induction net s e found w rule: query_loop.induct)
  case (1 net s e found w)
  let ?f = "\<lambda>k. (strftime (s - int k), strftime (e - int k))"
  let ?R = "query_loop net s e found w"
  have none: "requests (snd ?R) = requests w \<Longrightarrow> ?case"
    by (rule exI[of _ 0]) simp
  have one: "requests (snd ?R) = requests w @ [(strftime s, strftime e)] \<Longrightarrow> ?case"
    by (rule exI[of _ 1]) simp
  show ?case
  proof (cases "length found < 3")
    case False
    then show ?thesis by (intro none) (subst query_loop.simps, simp)
  next
    case short: True
    show ?thesis
    proof (cases "minus_days e 30")
      case (Inl err)
      with short show ?thesis by (intro none) (subst query_loop.simps, simp)
    next
      case (Inr limit)
      show ?thesis
      proof (cases "limit < s")
        case False
        with short Inr show ?thesis by (intro none) (subst query_loop.simps, simp)
      next
        case inside: True
        obtain r w1 where g: "get net (strftime s) (strftime e) w = (r, w1)"
          by (cases "get net (strftime s) (strftime e) w")
        then have w1: "requests w1 = requests w @ [(strftime s, strftime e)]"
          by (auto simp add: get_def)
        show ?thesis
        proof (cases "near_earth_objects r")
          case (Inl err)
          with short Inr inside g w1 show ?thesis
            by (intro one) (subst query_loop.simps, simp)
        next
          case objs: (Inr objects)
          show ?thesis
          proof (cases "minus_days e 1")
            case (Inl err)
            with short Inr inside g w1 objs show ?thesis
              by (intro one) (subst query_loop.simps, simp)
          next
            case e': (Inr e')
            show ?thesis
            proof (cases "minus_days s 1")
              case (Inl err)
              with short Inr inside g w1 objs e' show ?thesis
                by (intro one) (subst query_loop.simps, simp)
            next
              case s': (Inr s')
              have eq: "?R = query_loop net s' e' (extract_hazardous objects found) w1"
                using short Inr inside g objs e' s' by (subst query_loop.simps, simp)
              from "1.IH"[OF _ Inr _ g[symmetric] objs refl e' s'] short inside
              obtain n where n: "requests (snd (query_loop net s' e' (extract_hazardous objects found) w1)) =
                  requests w1 @ map (\<lambda>k. (strftime (s' - int k), strftime (e' - int k))) [0..<n]"
                by auto
              have "s' = s - 1" "e' = e - 1"
                using minus_days_Inr[OF s'] minus_days_Inr[OF e'] by auto
              with n eq w1 have "requests (snd ?R) = requests w @ map ?f [0..<Suc n]"
                by (simp only: window_map_Suc) simp
              then show ?thesis by blast
            qed
          qed
        qed
      qed
    qed
  qed
qed


text \<open>
  Claim C10. Every request of \<^verbatim>\<open>display_recent_hazardous_asteroids\<close> is for a window
  whose start is the day before its end: the \<open>k\<close>-th request (from 0) asks for the
  dates \<open>today - 1 - k\<close> and \<open>today - k\<close>. The window slides back one day per
  iteration and is never widened or narrowed.
\<close>

theorem scanner_windows:
  "\<exists>n. requests (snd (display_recent_hazardous_asteroids net today today_at_print w)) =
     requests w @
       map (\<lambda>k. (strftime (today - 1 - int k), strftime (today - int k))) [0..<n]"
proof (cases "minus_days today 1")
  case (Inl err)
  then have "requests (snd (display_recent_hazardous_asteroids net today today_at_print w)) =
      requests w"
    by (simp add: display_recent_hazardous_asteroids_def)
  then show ?thesis by (intro exI[of _ 0]) simp
next
  case (Inr s)
  then have s: "s = today - 1" using minus_days_Inr by blast
  obtain n where n: "requests (snd (query_loop net s today [] w)) =
      requests w @ map (\<lambda>k. (strftime (s - int k), strftime (today - int k))) [0..<n]"
    using query_loop_requests by blast
  have "requests (snd (display_recent_hazardous_asteroids net today today_at_print w)) =
      requests (snd (query_loop net s today [] w))"
    using Inr
    by (auto simp add: display_recent_hazardous_asteroids_def print_found_eq print_def
        split: prod.splits sum.splits)
  with n s show ?thesis by auto
qed

text \<open>
  A service whose feed never holds an asteroid: the guard of the loop compares
  \<^verbatim>\<open>start_date\<close> with \<^verbatim>\<open>end_date - timedelta(days=30)\<close>, and \<^verbatim>\<open>end_date\<close> moves with
  \<^verbatim>\<open>start_date\<close>, so the comparison never fails. The loop ends only when the
  subtraction in the guard leaves the range of \<^verbatim>\<open>datetime\<close>.
\<close>

lemma quiet_loop:
  assumes quiet: "\<And>q. near_earth_objects (net q) = Inr []"
  shows "e \<le> 3652059 \<Longrightarrow> 
    query_loop net (e - 1) e [] w =
      (Inl OverflowError,
       w\<lparr>requests := requests w @
         map (\<lambda>k. (strftime (e - 1 - int k), strftime (e - int k))) [0..<nat (e - 30)]\<rparr>)"
proof (induction "nat (e - 30)" arbitrary: e w)
  case 0
  then have "minus_days e 30 = Inl OverflowError"
    by (simp add: minus_days_def)
  with 0 show ?case by (subst query_loop.simps) simp
next
  case (Suc n)
  then have e: "31 \<le> e" "n = nat (e - 1 - 30)" "e - 1 \<le> 3652059" by auto
  have md: "minus_days e 30 = Inr (e - 30)" "minus_days e 1 = Inr (e - 1)"
      "minus_days (e - 1) 1 = Inr (e - 1 - 1)"
    using e Suc.prems by (simp_all add: minus_days_def)
  have "query_loop net (e - 1) e [] w =
      query_loop net (e - 1 - 1) (e - 1) []
        (w\<lparr>requests := requests w @ [(strftime (e - 1), strftime e)]\<rparr>)"
    by (subst query_loop.simps) (simp add: md quiet get_def)
  also have "\<dots> = (Inl OverflowError,
       w\<lparr>requests := (requests w @ [(strftime (e - 1), strftime e)]) @
         map (\<lambda>k. (strftime (e - 1 - 1 - int k), strftime (e - 1 - int k))) [0..<n]\<rparr>)"
    using Suc.hyps(1)[OF e(2) e(3)] e(2) by simp
  also have "\<dots> = (Inl OverflowError,
       w\<lparr>requests := requests w @
         map (\<lambda>k. (strftime (e - 1 - int k), strftime (e - int k))) [0..<Suc n]\<rparr>)"
    by (simp only: window_map_Suc) simp
  finally show ?case using Suc.hyps(2) by simp
qed

text \<open>
  The equations that evaluate \<open>strftime\<close> on a numeral.
\<close>

lemmas strftime_eval =
  strftime_def ord2ymd_def Let_def days_before_month_def days_in_month_def zfill_def
  str_int_def str_nat.simps digit_char_def

text \<open>
  Claim C1, at the input where the code departs from it. Called on 2023-06-15
  (ordinal 738686) against a service that never reports an asteroid, the function
  issues 738656 requests, one per day back to the year 1, and ends with
  \<^verbatim>\<open>OverflowError\<close>; its 31st request is for the window that starts on 2023-05-15,
  31 days before the call.
\<close>

theorem scanner_past_thirty_days:
  "fst (display_recent_hazardous_asteroids quiet_service 738686 738686 empty_world) =
     Inl OverflowError \<and>
   length (requests (snd
     (display_recent_hazardous_asteroids quiet_service 738686 738686 empty_world))) = 738656 \<and>
   requests (snd
     (display_recent_hazardous_asteroids quiet_service 738686 738686 empty_world)) ! 30 =
     (''2023-05-15'', ''2023-05-16'')"
proof -
  have q: "\<And>q. near_earth_objects (quiet_service q) = Inr []"
    by (simp add: quiet_service_def near_earth_objects_def)
  have md: "minus_days 738686 1 = Inr 738685"
    by (simp add: minus_days_def)
  have R: "display_recent_hazardous_asteroids quiet_service 738686 738686 empty_world =
      (Inl OverflowError,
       empty_world\<lparr>requests := requests empty_world @
         map (\<lambda>k. (strftime (738686 - 1 - int k), strftime (738686 - int k)))
           [0..<nat (738686 - 30)]\<rparr>)"
    unfolding display_recent_hazardous_asteroids_def md
    using quiet_loop[of quiet_service 738686 empty_world, OF q]
    by (simp del: upt_rec_numeral)
  have n: "nat (738686 - 30) = 738656" by simp
  have s1: "strftime 738655 = ''2023-05-15''" by (simp add: strftime_eval)
  have s2: "strftime 738656 = ''2023-05-16''" by (simp add: strftime_eval)
  show ?thesis
    unfolding R n by (simp add: empty_world_def s1 s2 del: upt_rec_numeral)
qed


text \<open>
  Claim C3, at the input where the code departs from it. On a response with status
  429 whose body is a JSON object without \<^verbatim>\<open>near_earth_objects\<close>, the scanner decodes
  the body and fails with \<^verbatim>\<open>KeyError\<close>, where \<^verbatim>\<open>display_asteroid_information\<close> raises
  the exception that carries the status and the reason; on a response with status 500
  that carries a feed, the scanner reports the asteroids of the body.
\<close>

theorem scanner_ignores_status:
  "display_recent_hazardous_asteroids throttled_service 738686 738686 empty_world =
     (Inl (KeyError ''near_earth_objects''),
      \<lparr>requests = [(''2023-06-14'', ''2023-06-15'')], stdout = []\<rparr>) \<and>
   display_asteroid_information throttled_service ''2023-06-14'' ''2023-06-15'' empty_world =
     (Inl (Exception ''Error 429: Too Many Requests''),
      \<lparr>requests = [(''2023-06-14'', ''2023-06-15'')], stdout = []\<rparr>) \<and>
   display_recent_hazardous_asteroids failing_service 738686 738686 empty_world =
     (Inr (),
      \<lparr>requests = [(''2023-06-14'', ''2023-06-15'')],
       stdout = [''The three most recent hazardous asteroids As of today 2023-06-15 are:'',
         ''2023-06-15: A'', ''2023-06-15: B'', ''2023-06-15: C'']\<rparr>)"
proof -
  have s1: "strftime 738685 = ''2023-06-14''" by (simp add: strftime_eval)
  have s2: "strftime 738686 = ''2023-06-15''" by (simp add: strftime_eval)
  have md: "minus_days 738686 1 = Inr 738685" "minus_days 738686 30 = Inr 738656"
    "minus_days 738685 1 = Inr 738684"
    by (simp_all add: minus_days_def)
  have a: "display_recent_hazardous_asteroids throttled_service 738686 738686 empty_world =
     (Inl (KeyError ''near_earth_objects''),
      \<lparr>requests = [(''2023-06-14'', ''2023-06-15'')], stdout = []\<rparr>)"
    unfolding display_recent_hazardous_asteroids_def md
    by (subst query_loop.simps)
      (simp add: md s1 s2 get_def throttled_service_def near_earth_objects_def empty_world_def)
  have b: "display_asteroid_information throttled_service ''2023-06-14'' ''2023-06-15'' empty_world =
     (Inl (Exception ''Error 429: Too Many Requests''),
      \<lparr>requests = [(''2023-06-14'', ''2023-06-15'')], stdout = []\<rparr>)"
    by (simp add: display_asteroid_information_def get_def throttled_service_def
        error_message_def str_int_def str_nat.simps digit_char_def empty_world_def)
  have c: "display_recent_hazardous_asteroids failing_service 738686 738686 empty_world =
     (Inr (),
      \<lparr>requests = [(''2023-06-14'', ''2023-06-15'')],
       stdout = [''The three most recent hazardous asteroids As of today 2023-06-15 are:'',
         ''2023-06-15: A'', ''2023-06-15: B'', ''2023-06-15: C'']\<rparr>)"
    unfolding display_recent_hazardous_asteroids_def md
    apply (subst query_loop.simps)
    apply (simp add: md s1 s2 get_def failing_service_def near_earth_objects_def empty_world_def
        rock_def)
    apply (subst query_loop.simps)
    apply (simp add: print_def s2)
    done
  from a b c show ?thesis by simp
qed

text \<open>
  The loop over several responses: the first \<open>n\<close> responses together, and the
  last one up to the date bucket before \<open>date\<close>, hold fewer than three hazardous
  asteroids beyond those collected before, and the bucket of \<open>date\<close> brings the
  number to three or more.
\<close>

lemma loop_collects:
  assumes "\<forall>k<n. near_earth_objects
        (net (strftime (e - 1 - int k), strftime (e - int k))) = Inr (feeds k)"
    and "near_earth_objects (net (strftime (e - 1 - int n), strftime (e - int n))) =
        Inr (earlier @ (date, asteroids) # later)"
    and "length (found0 @ concat (map (\<lambda>k. concat (map hazardous_entries (feeds k))) [0..<n]) @
        concat (map hazardous_entries earlier)) < 3"
    and "3 \<le> length (found0 @ concat (map (\<lambda>k. concat (map hazardous_entries (feeds k))) [0..<n]) @
        concat (map hazardous_entries earlier) @ hazardous_entries (date, asteroids))"
    and "30 < e - int n" "e \<le> 3652059"
  shows "query_loop net (e - 1) e found0 w =
    (Inr (found0 @ concat (map (\<lambda>k. concat (map hazardous_entries (feeds k))) [0..<n]) @
        concat (map hazardous_entries earlier) @ hazardous_entries (date, asteroids)),
     w\<lparr>requests := requests w @
       map (\<lambda>k. (strftime (e - 1 - int k), strftime (e - int k))) [0..<Suc n]\<rparr>)"
  using assms
proof (induction n arbitrary: e found0 w feeds)
  case 0
  let ?found = "found0 @ concat (map hazardous_entries earlier) @ hazardous_entries (date, asteroids)"
  let ?w1 = "w\<lparr>requests := requests w @ [(strftime (e - 1), strftime e)]\<rparr>"
  have short: "length found0 < 3" using "0.prems"(3) by simp
  have md: "minus_days e 30 = Inr (e - 30)" "minus_days e 1 = Inr (e - 1)"
      "minus_days (e - 1) 1 = Inr (e - 1 - 1)"
    using "0.prems"(5,6) by (simp_all add: minus_days_def)
  have ex: "extract_hazardous (earlier @ (date, asteroids) # later) found0 = ?found"
    using extract_hazardous_break[of found0 earlier date asteroids later] "0.prems"(3,4)
    by simp
  have "query_loop net (e - 1) e found0 w =
      query_loop net (e - 1 - 1) (e - 1) ?found ?w1"
    using "0.prems"(2) short by (subst query_loop.simps) (simp add: md get_def ex)
  also have "\<dots> = (Inr ?found, ?w1)"
    using "0.prems"(4) by (subst query_loop.simps) simp
  finally show ?case by simp
next
  case (Suc n)
  let ?g = "\<lambda>k. concat (map hazardous_entries (feeds k))"
  let ?w1 = "w\<lparr>requests := requests w @ [(strftime (e - 1), strftime e)]\<rparr>"
  have up: "map ?g [0..<Suc n] = ?g 0 # map (\<lambda>k. ?g (Suc k)) [0..<n]"
    by (simp only: map_upt_Suc)
  have few: "length (found0 @ ?g 0) < 3" using Suc.prems(3) unfolding up by simp
  then have short: "length found0 < 3" by simp
  have md: "minus_days e 30 = Inr (e - 30)" "minus_days e 1 = Inr (e - 1)"
      "minus_days (e - 1) 1 = Inr (e - 1 - 1)"
    using Suc.prems(5,6) by (simp_all add: minus_days_def)
  have first: "near_earth_objects (net (strftime (e - 1), strftime e)) = Inr (feeds 0)"
    using Suc.prems(1) by (elim allE[of _ 0]) simp
  have ex: "extract_hazardous (feeds 0) found0 = found0 @ ?g 0"
    using few by (rule extract_hazardous_all)
  have step: "query_loop net (e - 1) e found0 w =
      query_loop net (e - 1 - 1) (e - 1) (found0 @ ?g 0) ?w1"
    using short by (subst query_loop.simps) (simp add: md get_def first ex)
  have shift: "e - 1 - int (Suc k) = e - 1 - 1 - int k" "e - int (Suc k) = e - 1 - int k" for k
    by simp_all
  have 1: "\<forall>k<n. near_earth_objects
        (net (strftime (e - 1 - 1 - int k), strftime (e - 1 - int k))) = Inr (feeds (Suc k))"
  proof (intro allI impI)
    fix k assume "k < n"
    then have "near_earth_objects
        (net (strftime (e - 1 - int (Suc k)), strftime (e - int (Suc k)))) = Inr (feeds (Suc k))"
      using Suc.prems(1) by (elim allE[of _ "Suc k"]) simp
    then show "near_earth_objects
        (net (strftime (e - 1 - 1 - int k), strftime (e - 1 - int k))) = Inr (feeds (Suc k))"
      by (simp only: shift)
  qed
  have 2: "near_earth_objects (net (strftime (e - 1 - 1 - int n), strftime (e - 1 - int n))) =
        Inr (earlier @ (date, asteroids) # later)"
    using Suc.prems(2) by (simp only: shift)
  have 3: "length ((found0 @ ?g 0) @ concat (map (\<lambda>k. ?g (Suc k)) [0..<n]) @
        concat (map hazardous_entries earlier)) < 3"
    using Suc.prems(3) unfolding up by simp
  have 4: "3 \<le> length ((found0 @ ?g 0) @ concat (map (\<lambda>k. ?g (Suc k)) [0..<n]) @
        concat (map hazardous_entries earlier) @ hazardous_entries (date, asteroids))"
    using Suc.prems(4) unfolding up by simp
  have 5: "30 < e - 1 - int n" "e - 1 \<le> 3652059" using Suc.prems(5,6) by simp_all
  have win: "map (\<lambda>k. (strftime (e - 1 - int k), strftime (e - int k))) [0..<Suc (Suc n)] =
      (strftime (e - 1), strftime e) #
        map (\<lambda>k. (strftime (e - 1 - 1 - int k), strftime (e - 1 - int k))) [0..<Suc n]"
    by (simp only: map_upt_Suc[of _ "Suc n"] shift) simp
  show ?case
    unfolding step Suc.IH[of "e - 1" "\<lambda>k. feeds (Suc k)" "found0 @ ?g 0" ?w1, OF 1 2 3 4 5]
      up win
    by simp
qed

text \<open>
  Claim C5. Let the responses to the first \<open>n\<close> requests and the date buckets of the
  next response before the bucket of \<open>date\<close> hold fewer than three hazardous
  asteroids together, and let the bucket of \<open>date\<close> bring the number to three or
  more. Then the scan of that response stops after this bucket: the later buckets
  contribute nothing, whatever they hold, and no further request is made. The report
  is the header and then every pair collected over all \<open>n + 1\<close> responses, in the
  order of discovery, all the hazardous asteroids of the last bucket included, so it
  may list more than three.
\<close>

theorem scanner_break_and_report:
  assumes "\<forall>k<n. near_earth_objects
        (net (strftime (today - 1 - int k), strftime (today - int k))) = Inr (feeds k)"
    and "near_earth_objects (net (strftime (today - 1 - int n), strftime (today - int n))) =
        Inr (earlier @ (date, asteroids) # later)"
    and "length (concat (map (\<lambda>k. concat (map hazardous_entries (feeds k))) [0..<n]) @
        concat (map hazardous_entries earlier)) < 3"
    and "3 \<le> length (concat (map (\<lambda>k. concat (map hazardous_entries (feeds k))) [0..<n]) @
        concat (map hazardous_entries earlier) @ hazardous_entries (date, asteroids))"
    and "30 < today - int n" "today \<le> 3652059"
  shows "display_recent_hazardous_asteroids net today today_at_print w =
    (Inr (),
     w\<lparr>requests := requests w @
         map (\<lambda>k. (strftime (today - 1 - int k), strftime (today - int k))) [0..<Suc n],
       stdout := stdout w @
         (''The three most recent hazardous asteroids As of today '' @
            strftime today_at_print @ '' are:'') #
         map (\<lambda>(date, nm). date @ '': '' @ nm)
           (concat (map (\<lambda>k. concat (map hazardous_entries (feeds k))) [0..<n]) @
            concat (map hazardous_entries earlier) @ hazardous_entries (date, asteroids))\<rparr>)"
proof -
  have md: "minus_days today 1 = Inr (today - 1)"
    using assms(5,6) by (simp add: minus_days_def)
  have "query_loop net (today - 1) today [] w =
    (Inr ([] @ concat (map (\<lambda>k. concat (map hazardous_entries (feeds k))) [0..<n]) @
        concat (map hazardous_entries earlier) @ hazardous_entries (date, asteroids)),
     w\<lparr>requests := requests w @
       map (\<lambda>k. (strftime (today - 1 - int k), strftime (today - int k))) [0..<Suc n]\<rparr>)"
    using assms by (intro loop_collects) simp_all
  then show ?thesis
    by (simp add: display_recent_hazardous_asteroids_def md print_found_eq print_def
        del: upt_Suc)
qed

text \<open>
  Two responses. The first holds two hazardous asteroids; the first bucket of the second
  holds two more, so four entries are reported, and its second bucket is not looked at.
\<close>

theorem scanner_break_and_report_witness:
  "display_recent_hazardous_asteroids two_day_service 738686 738686 empty_world =
    (Inr (),
     \<lparr>requests = [(''2023-06-14'', ''2023-06-15''), (''2023-06-13'', ''2023-06-14'')],
      stdout = [''The three most recent hazardous asteroids As of today 2023-06-15 are:'',
        ''2023-06-15: A'', ''2023-06-14: D'', ''2023-06-14: D'', ''2023-06-14: E'']\<rparr>)"
proof -
  have s0: "strftime 738684 = ''2023-06-13''" by (simp add: strftime_eval)
  have s1: "strftime 738685 = ''2023-06-14''" by (simp add: strftime_eval)
  have s2: "strftime 738686 = ''2023-06-15''" by (simp add: strftime_eval)
  show ?thesis
    using scanner_break_and_report[of 1 two_day_service 738686
        "\<lambda>k. [(''2023-06-15'', [rock ''A'' True, rock ''B'' False]),
              (''2023-06-14'', [rock ''D'' True])]"
        "[]" "''2023-06-14''" "[rock ''D'' True, rock ''E'' True]"
        "[(''2023-06-13'', [rock ''F'' True])]" 738686 empty_world]
    by (simp add: two_day_service_def near_earth_objects_def hazardous_entries_def rock_def
        empty_world_def s0 s1 s2)
qed

text \<open>
  The windows of the requests made against the service that never reports an asteroid.
\<close>

theorem scanner_windows_witness:
  "\<exists>n. requests (snd (display_recent_hazardous_asteroids quiet_service 738686 738686 empty_world)) =
     map (\<lambda>k. (strftime (738685 - int k), strftime (738686 - int k))) [0..<n]"
  using scanner_windows[of quiet_service 738686 738686 empty_world]
  by (simp add: empty_world_def)

section \<open>Properties of the rounding\<close>

lemma pow2_pos: "0 < pow2 e"
  by (simp add: pow2_def)

lemma pow2_add: "pow2 (a + b) = pow2 a * pow2 b"
proof -
  have "pow2 e = 2 powi e" for e
    by (simp add: pow2_def power_int_def field_simps)
  then show ?thesis by (simp add: power_int_add)
qed

lemma pow2_mono: "a \<le> b \<Longrightarrow> pow2 a \<le> pow2 b"
proof -
  assume "a \<le> b"
  then obtain k where k: "b = a + int k" by (metis zle_iff_zadd)
  have "1 \<le> pow2 (int k)" by (simp add: pow2_def)
  then show ?thesis unfolding k pow2_add using pow2_pos[of a]
    by (simp add: mult_le_cancel_left1)
qed

lemma pow2_strict_mono: "a < b \<Longrightarrow> pow2 a < pow2 b"
proof -
  assume "a < b"
  then have "a + 1 \<le> b" by simp
  then have "pow2 (a + 1) \<le> pow2 b" by (rule pow2_mono)
  moreover have "pow2 a < pow2 (a + 1)"
    unfolding pow2_add using pow2_pos[of a] by (simp add: pow2_def)
  ultimately show ?thesis by simp
qed

lemma bitlen_bounds_rat:
  assumes "0 < n"
  shows "(2::rat) ^ nat (bitlen n - 1) \<le> of_int n \<and> of_int n + 1 \<le> (2::rat) ^ nat (bitlen n)"
proof -
  from bitlen_bounds[OF assms]
  have A: "2 ^ nat (bitlen n - 1) \<le> n" "n + 1 \<le> 2 ^ nat (bitlen n)" by auto
  have "(of_int (2 ^ nat (bitlen n - 1)) :: rat) \<le> of_int n"
    using A(1) by (simp only: of_int_le_iff)
  moreover have "(of_int (n + 1) :: rat) \<le> of_int (2 ^ nat (bitlen n))"
    using A(2) by (simp only: of_int_le_iff)
  ultimately show ?thesis by (simp only: of_int_power of_int_numeral of_int_add of_int_1)
qed

lemma pow2_nat: "0 \<le> e \<Longrightarrow> pow2 e = 2 ^ nat e"
  by (simp add: pow2_def)

lemma pow2_minus: "pow2 (- e) = inverse (pow2 e)"
proof -
  have "pow2 (- e) * pow2 e = 1"
    using pow2_add[of "- e" e] by (simp add: pow2_def)
  then show ?thesis
    by (metis inverse_unique mult.commute)
qed

lemma ilog2_bounds:
  assumes "0 < x"
  shows "pow2 (ilog2 x) \<le> x \<and> x < pow2 (ilog2 x + 1)"
proof (cases "1 \<le> x")
  case True
  define n where "n = \<lfloor>x\<rfloor>"
  have n: "0 < n" "of_int n \<le> x" "x < of_int n + 1"
    using True by (auto simp add: n_def) linarith+
  have b: "1 \<le> bitlen n" using n(1) bitlen_eq_zero_iff[of n] bitlen_nonneg[of n] by linarith
  from bitlen_bounds_rat[OF n(1)]
  have "(2::rat) ^ nat (bitlen n - 1) \<le> x" "x < 2 ^ nat (bitlen n)"
    using n by linarith+
  moreover have "ilog2 x = bitlen n - 1"
    using True by (simp add: ilog2_def n_def)
  ultimately show ?thesis using b by (simp add: pow2_nat)
next
  case False
  define y where "y = inverse x"
  define m where "m = \<lceil>y\<rceil> - 1"
  have y: "1 < y" using False assms by (simp add: y_def one_less_inverse_iff)
  have m: "0 < m" "of_int m < y" "y \<le> of_int m + 1"
    using y by (auto simp add: m_def less_ceiling_iff) linarith+
  have b: "1 \<le> bitlen m" using m(1) bitlen_eq_zero_iff[of m] bitlen_nonneg[of m] by linarith
  from bitlen_bounds_rat[OF m(1)]
  have lo: "(2::rat) ^ nat (bitlen m - 1) < y" and hi: "y \<le> 2 ^ nat (bitlen m)"
    using m by linarith+
  have x: "x = inverse y" by (simp add: y_def)
  have i: "ilog2 x = - bitlen m"
    using False by (simp add: ilog2_def m_def y_def inverse_eq_divide)
  have "inverse (pow2 (bitlen m)) \<le> inverse y"
    using hi y b by (intro le_imp_inverse_le) (simp_all add: pow2_nat)
  then have 1: "pow2 (- bitlen m) \<le> x"
    by (simp only: pow2_minus x)
  have "inverse y < inverse (pow2 (bitlen m - 1))"
    using lo b by (intro less_imp_inverse_less) (simp_all add: pow2_nat)
  then have 2: "x < pow2 (- (bitlen m - 1))"
    by (simp only: pow2_minus x)
  have "- (bitlen m - 1) = - bitlen m + 1" by simp
  with 1 2 show ?thesis unfolding i by (simp only:)
qed

lemma ilog2_unique:
  assumes "pow2 e \<le> x" "x < pow2 (e + 1)"
  shows "ilog2 x = e"
proof -
  have "0 < x" using assms(1) pow2_pos[of e] by simp
  from ilog2_bounds[OF this] have b: "pow2 (ilog2 x) \<le> x" "x < pow2 (ilog2 x + 1)" by auto
  have "\<not> ilog2 x < e"
  proof
    assume "ilog2 x < e"
    then have "pow2 (ilog2 x + 1) \<le> pow2 e" by (intro pow2_mono) simp
    with b assms show False by simp
  qed
  moreover have "\<not> e < ilog2 x"
  proof
    assume "e < ilog2 x"
    then have "pow2 (e + 1) \<le> pow2 (ilog2 x)" by (intro pow2_mono) simp
    with b assms show False by simp
  qed
  ultimately show ?thesis by simp
qed


lemma round_half_even_cases:
  "round_half_even q = \<lfloor>q\<rfloor> \<or> round_half_even q = \<lfloor>q\<rfloor> + 1"
  by (simp add: round_half_even_def Let_def)

lemma round_half_even_int [simp]: "round_half_even (of_int k) = k"
  by (simp add: round_half_even_def Let_def)

lemma round_half_even_mono:
  assumes "x \<le> y"
  shows "round_half_even x \<le> round_half_even y"
proof (cases "\<lfloor>x\<rfloor> = \<lfloor>y\<rfloor>")
  case True
  then have "x - of_int \<lfloor>x\<rfloor> \<le> y - of_int \<lfloor>y\<rfloor>" using assms by simp
  then show ?thesis using True
    by (auto simp add: round_half_even_def Let_def)
next
  case False
  then have "\<lfloor>x\<rfloor> < \<lfloor>y\<rfloor>" using floor_mono[OF assms] by simp
  moreover have "round_half_even x \<le> \<lfloor>x\<rfloor> + 1" "\<lfloor>y\<rfloor> \<le> round_half_even y"
    using round_half_even_cases[of x] round_half_even_cases[of y] by auto
  ultimately show ?thesis by linarith
qed

lemma round_half_even_ge: "of_int k \<le> q \<Longrightarrow> k \<le> round_half_even q"
  using round_half_even_mono[of "of_int k" q] by simp

lemma round_half_even_le: "q \<le> of_int k \<Longrightarrow> round_half_even q \<le> k"
  using round_half_even_mono[of q "of_int k"] by simp

lemma grid_pos: "0 < grid a"
  by (simp add: grid_def pow2_pos)

lemma nearest_pos_eq: "0 < x \<Longrightarrow> nearest x = of_int (round_half_even (x / grid x)) * grid x"
  by (simp add: nearest_def)

lemma nearest_minus: "nearest (- x) = - nearest x"
  by (simp add: nearest_def)

lemma nearest_zero [simp]: "nearest 0 = 0"
  by (simp add: nearest_def)

lemma ilog2_mono:
  assumes "0 < x" "x \<le> y"
  shows "ilog2 x \<le> ilog2 y"
proof (rule ccontr)
  assume "\<not> ilog2 x \<le> ilog2 y"
  then have "ilog2 y + 1 \<le> ilog2 x" by simp
  then have "pow2 (ilog2 y + 1) \<le> pow2 (ilog2 x)" by (rule pow2_mono)
  moreover have "pow2 (ilog2 x) \<le> x" "y < pow2 (ilog2 y + 1)"
    using ilog2_bounds[of x] ilog2_bounds[of y] assms by auto
  ultimately show False using assms by linarith
qed

text \<open>The rounded value stays in the binade of its argument.\<close>

lemma pow2_52: "pow2 e = pow2 (e - 52) * 2 ^ 52"
  using pow2_add[of "e - 52" 52] by (simp add: pow2_def)

lemma nearest_upper:
  assumes "0 < x"
  shows "nearest x \<le> pow2 (max (ilog2 x) (- 1022) + 1)"
proof -
  let ?e = "max (ilog2 x) (- 1022)"
  have "x < pow2 (ilog2 x + 1)" using ilog2_bounds[OF assms] by simp
  also have "\<dots> \<le> pow2 (?e + 1)" by (rule pow2_mono) simp
  finally have "x < pow2 (?e + 1)" .
  also have "pow2 (?e + 1) = grid x * 2 ^ 53"
  proof -
    have "?e + 1 = (?e - 52) + 53" by simp
    then have "pow2 (?e + 1) = pow2 (?e - 52) * pow2 53" by (simp only: pow2_add)
    then show ?thesis by (simp add: grid_def pow2_def[of 53])
  qed
  finally have "x / grid x \<le> of_int (2 ^ 53)"
    using grid_pos[of x] by (simp add: field_simps)
  then have "round_half_even (x / grid x) \<le> 2 ^ 53" by (rule round_half_even_le)
  then have "(of_int (round_half_even (x / grid x)) :: rat) \<le> of_int (2 ^ 53)"
    by (simp only: of_int_le_iff)
  then have "of_int (round_half_even (x / grid x)) * grid x \<le> 2 ^ 53 * grid x"
    using grid_pos[of x] by simp
  then show ?thesis
    unfolding nearest_pos_eq[OF assms] \<open>pow2 (?e + 1) = grid x * 2 ^ 53\<close>
    by (simp add: mult.commute)
qed

lemma nearest_lower:
  assumes "0 < x" "- 1022 \<le> ilog2 x"
  shows "pow2 (ilog2 x) \<le> nearest x"
proof -
  have e: "max (ilog2 x) (- 1022) = ilog2 x" using assms by simp
  have "pow2 (ilog2 x) \<le> x" using ilog2_bounds[OF assms(1)] by simp
  moreover have g: "pow2 (ilog2 x) = grid x * 2 ^ 52"
    using pow2_52[of "ilog2 x"] by (simp add: grid_def e)
  ultimately have "of_int (2 ^ 52) \<le> x / grid x"
    using grid_pos[of x] by (simp add: field_simps)
  then have "2 ^ 52 \<le> round_half_even (x / grid x)" by (rule round_half_even_ge)
  then have "(of_int (2 ^ 52) :: rat) \<le> of_int (round_half_even (x / grid x))"
    by (simp only: of_int_le_iff)
  then have "2 ^ 52 * grid x \<le> of_int (round_half_even (x / grid x)) * grid x"
    using grid_pos[of x] by simp
  then show ?thesis
    unfolding nearest_pos_eq[OF assms(1)] g by (simp add: mult.commute)
qed

lemma nearest_nonneg: "0 \<le> x \<Longrightarrow> 0 \<le> nearest x"
proof -
  assume "0 \<le> x"
  show ?thesis
  proof (cases "x = 0")
    case False
    with \<open>0 \<le> x\<close> have x: "0 < x" by simp
    have "0 \<le> x / grid x" using x grid_pos[of x] by simp
    then have "0 \<le> round_half_even (x / grid x)"
      using round_half_even_ge[of 0] by simp
    then show ?thesis
      unfolding nearest_pos_eq[OF x] using grid_pos[of x] by simp
  qed simp
qed

lemma nearest_mono_pos:
  assumes "0 < x" "x \<le> y"
  shows "nearest x \<le> nearest y"
proof -
  have y: "0 < y" using assms by simp
  have le: "ilog2 x \<le> ilog2 y" using ilog2_mono[OF assms] .
  show ?thesis
  proof (cases "max (ilog2 x) (- 1022) = max (ilog2 y) (- 1022)")
    case True
    then have g: "grid x = grid y" by (simp add: grid_def)
    have "x / grid y \<le> y / grid y"
      using assms grid_pos[of y] by (simp add: divide_right_mono)
    then have "round_half_even (x / grid y) \<le> round_half_even (y / grid y)"
      by (rule round_half_even_mono)
    then have "(of_int (round_half_even (x / grid y)) :: rat) \<le>
        of_int (round_half_even (y / grid y))"
      by (simp only: of_int_le_iff)
    then show ?thesis
      unfolding nearest_pos_eq[OF assms(1)] nearest_pos_eq[OF y] g
      using grid_pos[of y] by simp
  next
    case False
    with le have lt: "max (ilog2 x) (- 1022) < ilog2 y" and n: "- 1022 \<le> ilog2 y"
      by auto
    have "nearest x \<le> pow2 (max (ilog2 x) (- 1022) + 1)"
      by (rule nearest_upper[OF assms(1)])
    also have "\<dots> \<le> pow2 (ilog2 y)" using lt by (intro pow2_mono) linarith
    also have "\<dots> \<le> nearest y" by (rule nearest_lower[OF y n])
    finally show ?thesis .
  qed
qed

lemma nearest_mono:
  assumes "x \<le> y"
  shows "nearest x \<le> nearest y"
proof -
  consider "0 < x" | "x \<le> 0" "0 \<le> y" | "y < 0" by linarith
  then show ?thesis
  proof cases
    case 1
    then show ?thesis using nearest_mono_pos assms by simp
  next
    case 2
    have "nearest x \<le> 0" using nearest_nonneg[of "- x"] 2 by (simp add: nearest_minus)
    also have "0 \<le> nearest y" using nearest_nonneg 2 by simp
    finally show ?thesis .
  next
    case 3
    then have "nearest (- y) \<le> nearest (- x)" using assms by (intro nearest_mono_pos) simp_all
    then show ?thesis by (simp add: nearest_minus)
  qed
qed


lemma nearest_eval:
  assumes "pow2 e \<le> x" "x < pow2 (e + 1)" "- 1022 \<le> e"
  shows "nearest x = of_int (round_half_even (x / pow2 (e - 52))) * pow2 (e - 52)"
proof -
  have x: "0 < x" using assms(1) pow2_pos[of e] by simp
  have "ilog2 x = e" using assms by (intro ilog2_unique)
  then have "grid x = pow2 (e - 52)" using assms(3) by (simp add: grid_def)
  then show ?thesis using nearest_pos_eq[OF x] by simp
qed

lemma nearest_on_grid:
  assumes "0 < x" "x / grid x = of_int k"
  shows "nearest x = x"
proof -
  have "nearest x = of_int (round_half_even (of_int k)) * grid x"
    using nearest_pos_eq[OF assms(1)] assms(2) by simp
  also have "\<dots> = x / grid x * grid x" using assms(2) by simp
  also have "\<dots> = x" using grid_pos[of x] by simp
  finally show ?thesis .
qed

lemma on_grid:
  assumes "0 < x" "nearest x = x"
  shows "x / grid x = of_int (round_half_even (x / grid x))"
proof -
  have "x = of_int (round_half_even (x / grid x)) * grid x"
    using assms nearest_pos_eq by simp
  then have "x / grid x = of_int (round_half_even (x / grid x)) * grid x / grid x" by simp
  then show ?thesis using grid_pos[of x] by simp
qed

lemma ilog2_double:
  assumes "0 < x"
  shows "ilog2 (2 * x) = ilog2 x + 1"
proof (rule ilog2_unique)
  have p: "pow2 (e + 1) = 2 * pow2 e" for e
    using pow2_add[of e 1] by (simp add: pow2_def)
  show "pow2 (ilog2 x + 1) \<le> 2 * x"
    using ilog2_bounds[OF assms] by (simp add: p)
  have "2 * x < 2 * pow2 (ilog2 x + 1)"
    using ilog2_bounds[OF assms] by simp
  then show "2 * x < pow2 (ilog2 x + 1 + 1)"
    by (simp only: p[of "ilog2 x + 1"])
qed

lemma nearest_double_pos:
  assumes "0 < x" "nearest x = x"
  shows "nearest (2 * x) = 2 * x"
proof -
  define k where "k = round_half_even (x / grid x)"
  have k: "x / grid x = of_int k" using on_grid[OF assms] by (simp add: k_def)
  have x2: "0 < 2 * x" using assms by simp
  show ?thesis
  proof (cases "- 1022 \<le> ilog2 x")
    case True
    then have "max (ilog2 (2 * x)) (- 1022) - 52 = (max (ilog2 x) (- 1022) - 52) + 1"
      by (simp add: ilog2_double[OF assms(1)])
    then have "grid (2 * x) = grid x * pow2 1"
      unfolding grid_def by (simp only: pow2_add)
    then have g: "grid (2 * x) = 2 * grid x" by (simp add: pow2_def)
    have "2 * x / grid (2 * x) = of_int k" using k grid_pos[of x] by (simp add: g)
    then show ?thesis by (rule nearest_on_grid[OF x2])
  next
    case False
    then have "max (ilog2 (2 * x)) (- 1022) = max (ilog2 x) (- 1022)"
      by (simp add: ilog2_double[OF assms(1)])
    then have g: "grid (2 * x) = grid x" by (simp add: grid_def)
    have "2 * x / grid (2 * x) = of_int (2 * k)" using k by (simp add: g)
    then show ?thesis by (rule nearest_on_grid[OF x2])
  qed
qed

lemma nearest_double:
  assumes "nearest x = x"
  shows "nearest (2 * x) = 2 * x"
proof -
  consider "0 < x" | "x = 0" | "x < 0" by linarith
  then show ?thesis
  proof cases
    case 1
    then show ?thesis using assms by (rule nearest_double_pos)
  next
    case 2
    then show ?thesis by simp
  next
    case 3
    then have "nearest (2 * (- x)) = 2 * (- x)"
      using assms by (intro nearest_double_pos) (simp_all add: nearest_minus)
    then show ?thesis using nearest_minus[of "2 * x"] by simp
  qed
qed

lemma nearest_of_int_pos:
  assumes "0 < k" "k < 2 ^ 53"
  shows "nearest (of_int k) = of_int k"
proof -
  let ?x = "of_int k :: rat"
  have x: "0 < ?x" using assms by simp
  have "pow2 0 \<le> ?x" using assms by (simp add: pow2_def)
  then have lo: "0 \<le> ilog2 ?x"
    using ilog2_unique[of 0 "pow2 0"] ilog2_mono[of "pow2 0" ?x] pow2_pos[of 0]
    by (simp add: pow2_def)
  have "?x < pow2 53" using assms(2) by (simp add: pow2_def)
  moreover have "pow2 (ilog2 ?x) \<le> ?x" using ilog2_bounds[OF x] by simp
  ultimately have "pow2 (ilog2 ?x) < pow2 53" by simp
  then have hi: "ilog2 ?x \<le> 52"
    using pow2_mono[of 53 "ilog2 ?x"] by (cases "ilog2 ?x \<le> 52") auto
  define n where "n = nat (52 - ilog2 ?x)"
  have "max (ilog2 ?x) (- 1022) - 52 = - int n" using lo hi by (simp add: n_def)
  then have g: "grid ?x = inverse (2 ^ n)"
    unfolding grid_def by (simp only: pow2_minus) (simp add: pow2_def)
  have "?x / grid ?x = of_int (k * 2 ^ n)"
    unfolding g by (simp add: divide_inverse)
  then show ?thesis by (rule nearest_on_grid[OF x])
qed

lemma nearest_of_int:
  assumes "\<bar>k\<bar> < 2 ^ 53"
  shows "nearest (of_int k) = of_int k"
proof -
  consider "0 < k" | "k = 0" | "k < 0" by linarith
  then show ?thesis
  proof cases
    case 1
    then show ?thesis using assms by (intro nearest_of_int_pos) simp_all
  next
    case 2
    then show ?thesis by simp
  next
    case 3
    then have "nearest (of_int (- k)) = of_int (- k)"
      using assms by (intro nearest_of_int_pos) simp_all
    then show ?thesis using nearest_minus[of "of_int k"] by simp
  qed
qed

lemma floor_divide_numeral_rat [simp]:
  "\<lfloor>numeral a / (numeral b :: rat)\<rfloor> = numeral a div numeral b"
  by (metis floor_divide_of_int_eq of_int_numeral)

section \<open>Properties of \<^verbatim>\<open>display_asteroid_properties\<close>\<close>

text \<open>
  Claim C6. On a response whose status is not 200, \<^verbatim>\<open>display_asteroid_information\<close> and
  \<^verbatim>\<open>display_asteroid_properties\<close> raise the exception whose message holds the status
  code and the reason phrase. The one request has been issued and no other follows;
  nothing is printed.
\<close>

theorem non_200_raises_status_and_reason:
  assumes "status_code (net (start_date, end_date)) \<noteq> 200"
  shows "display_asteroid_information net start_date end_date w =
      (Inl (Exception (''Error '' @ str_int (status_code (net (start_date, end_date))) @ '': '' @
         reason (net (start_date, end_date)))),
       w\<lparr>requests := requests w @ [(start_date, end_date)]\<rparr>) \<and>
    display_asteroid_properties float net start_date end_date w =
      (Inl (Exception (''Error '' @ str_int (status_code (net (start_date, end_date))) @ '': '' @
         reason (net (start_date, end_date)))),
       w\<lparr>requests := requests w @ [(start_date, end_date)]\<rparr>)"
  using assms
  by (simp add: display_asteroid_information_def display_asteroid_properties_def get_def
      error_message_def)

text \<open>
  A 404 response: both functions raise \<^verbatim>\<open>Error 404: Not Found\<close> after one request.
\<close>

theorem not_found_raises_404:
  "display_asteroid_information missing_service ''2019-10-31'' ''2019-11-02'' empty_world =
      (Inl (Exception ''Error 404: Not Found''),
       \<lparr>requests = [(''2019-10-31'', ''2019-11-02'')], stdout = []\<rparr>) \<and>
   display_asteroid_properties float_table missing_service ''2020-09-10'' ''2020-09-10''
     empty_world =
      (Inl (Exception ''Error 404: Not Found''),
       \<lparr>requests = [(''2020-09-10'', ''2020-09-10'')], stdout = []\<rparr>)"
  using non_200_raises_status_and_reason[of missing_service "''2019-10-31''" "''2019-11-02''"
      empty_world float_table]
    non_200_raises_status_and_reason[of missing_service "''2020-09-10''" "''2020-09-10''"
      empty_world float_table]
  by (simp add: missing_service_def empty_world_def str_int_def str_nat.simps digit_char_def)

text \<open>
  A feed without asteroids: the loops leave \<^verbatim>\<open>velocities\<close> empty, and \<^verbatim>\<open>max\<close>, the
  first built-in applied to it, raises.
\<close>

lemma extract_velocities_no_asteroids:
  "concat (map snd objects) = [] \<Longrightarrow> extract_velocities float objects vs = Inr vs"
  by (induction objects arbitrary: vs) auto

lemma velocity_statistics_Nil: "velocity_statistics [] = Inl ValueError"
  by (simp add: velocity_statistics_def)

text \<open>
  Claim C2, as the code has it. On a response with status 200 whose feed holds no
  asteroid, \<^verbatim>\<open>display_asteroid_properties\<close> fails with the \<^verbatim>\<open>ValueError\<close> of \<^verbatim>\<open>max\<close> on
  an empty list. The mean is never computed, so the failure is not a
  \<^verbatim>\<open>ZeroDivisionError\<close>; it is not a dedicated error for the empty dataset either.
\<close>

theorem empty_dataset_raises_value_error:
  assumes "status_code (net (start_date, end_date)) = 200"
    and "near_earth_objects (net (start_date, end_date)) = Inr objects"
    and "concat (map snd objects) = []"
  shows "display_asteroid_properties float net start_date end_date w =
      (Inl ValueError, w\<lparr>requests := requests w @ [(start_date, end_date)]\<rparr>)"
  using assms
  by (simp add: display_asteroid_properties_def get_def extract_velocities_no_asteroids
      velocity_statistics_Nil)

text \<open>
  The service whose feed is empty.
\<close>

theorem empty_dataset_raises_value_error_witness:
  "display_asteroid_properties float_table quiet_service ''2020-09-10'' ''2020-09-10''
     empty_world =
   (Inl ValueError, \<lparr>requests = [(''2020-09-10'', ''2020-09-10'')], stdout = []\<rparr>)"
  using empty_dataset_raises_value_error[of quiet_service "''2020-09-10''" "''2020-09-10''"
      "[]" float_table empty_world]
  by (simp add: quiet_service_def near_earth_objects_def empty_world_def)

text \<open>
  Claim C2 as the specification states it fails on the empty feed: the error is the
  built-in's \<^verbatim>\<open>ValueError\<close>, not \<open>EmptyDatasetError\<close>.
\<close>

theorem empty_dataset_no_dedicated_error:
  "fst (display_asteroid_properties float_table quiet_service ''2020-09-10'' ''2020-09-10''
     empty_world) = Inl ValueError \<and>
   fst (display_asteroid_properties float_table quiet_service ''2020-09-10'' ''2020-09-10''
     empty_world) \<noteq> Inl EmptyDatasetError"
  by (simp add: display_asteroid_properties_def get_def quiet_service_def near_earth_objects_def
      velocity_statistics_Nil)

text \<open>
  The aggregates of a list of finite floats. Rounding is monotone and leaves a
  representable value alone, which is all the bounds below need.
\<close>

lemma rnd_eq_Fin_iff:
  "rnd x = Fin r \<longleftrightarrow> nearest x = r \<and> - pow2 1024 < r \<and> r < pow2 1024"
  by (auto simp add: rnd_def Let_def)

lemma rnd_between:
  assumes a: "rnd a = Fin a" and b: "rnd b = Fin b" and "a \<le> x" "x \<le> b"
  shows "\<exists>r. rnd x = Fin r \<and> a \<le> r \<and> r \<le> b"
proof -
  have "nearest a \<le> nearest x" "nearest x \<le> nearest b"
    using assms nearest_mono by simp_all
  then have "a \<le> nearest x" "nearest x \<le> b"
    using a b by (simp_all add: rnd_eq_Fin_iff)
  moreover have "- pow2 1024 < a" "b < pow2 1024"
    using a b by (simp_all add: rnd_eq_Fin_iff)
  ultimately show ?thesis by (simp add: rnd_eq_Fin_iff)
qed

lemma pow2_Suc: "pow2 (e + 1) = 2 * pow2 e"
  using pow2_add[of e 1] by (simp add: pow2_def)

lemma rnd_double:
  assumes "rnd a = Fin a" "\<bar>a\<bar> < pow2 1023"
  shows "rnd (2 * a) = Fin (2 * a)"
proof -
  have "pow2 1024 = 2 * pow2 1023" using pow2_Suc[of 1023] by simp
  then have "- pow2 1024 < 2 * a" "2 * a < pow2 1024" using assms(2) by linarith+
  moreover have "nearest (2 * a) = 2 * a"
    using assms(1) by (intro nearest_double) (simp add: rnd_eq_Fin_iff)
  ultimately show ?thesis by (simp add: rnd_eq_Fin_iff)
qed

lemma rnd_of_int: "\<bar>k\<bar> < 2 ^ 53 \<Longrightarrow> rnd (of_int k) = Fin (of_int k)"
proof -
  assume k: "\<bar>k\<bar> < 2 ^ 53"
  have "(of_int \<bar>k\<bar> :: rat) < of_int (2 ^ 53)" using k by (simp only: of_int_less_iff)
  then have "\<bar>of_int k :: rat\<bar> < 2 ^ 53" by simp
  moreover have "(2 :: rat) ^ 53 < pow2 1024" by (simp add: pow2_def)
  ultimately have "- pow2 1024 < (of_int k :: rat)" "(of_int k :: rat) < pow2 1024"
    by linarith+
  then show ?thesis using nearest_of_int[OF k] by (simp add: rnd_eq_Fin_iff)
qed

lemma float_of_int_exact: "\<bar>k\<bar> < 2 ^ 53 \<Longrightarrow> float_of_int k = Inr (Fin (of_int k))"
  by (simp add: float_of_int_def rnd_of_int)

text \<open>The average of two finite floats below the overflow threshold lies between them.\<close>

lemma average_between:
  assumes a: "rnd a = Fin a" and b: "rnd b = Fin b" and le: "a \<le> b"
    and small: "\<bar>a\<bar> < pow2 1023" "\<bar>b\<bar> < pow2 1023"
  shows "\<exists>m. truediv_int (fadd (Fin b) (Fin a)) 2 = Inr (Fin m) \<and> a \<le> m \<and> m \<le> b"
proof -
  have "2 * a \<le> b + a" "b + a \<le> 2 * b" using le by simp_all
  with rnd_between[OF rnd_double[OF a small(1)] rnd_double[OF b small(2)]]
  obtain s where s: "rnd (b + a) = Fin s" "2 * a \<le> s" "s \<le> 2 * b" by blast
  have "a \<le> s / 2" "s / 2 \<le> b" using s by simp_all
  with rnd_between[OF a b]
  obtain m where m: "rnd (s / 2) = Fin m" "a \<le> m" "m \<le> b" by blast
  have "truediv_int (fadd (Fin b) (Fin a)) 2 = Inr (Fin m)"
    using float_of_int_exact[of 2] s(1) m(1) by (simp add: truediv_int_def truediv_def)
  with m show ?thesis by blast
qed


text \<open>Lists of finite floats are the lists \<open>map Fin rs\<close>.\<close>

lemma finite_floats_map:
  assumes "\<forall>v\<in>set V. finite_float v"
  shows "\<exists>rs. V = map Fin rs \<and> (\<forall>r\<in>set rs. rnd r = Fin r)"
  using assms
proof (induction V)
  case Nil
  then show ?case by simp
next
  case (Cons v V)
  then obtain rs where rs: "V = map Fin rs" "\<forall>r\<in>set rs. rnd r = Fin r" by auto
  from Cons.prems obtain r where r: "v = Fin r" "rnd r = Fin r"
    by (cases v) (auto simp add: finite_float_def)
  show ?case
    by (rule exI[of _ "r # rs"]) (use r rs in auto)
qed

lemma insort_lt_Fin: "insort_lt (Fin r) (map Fin rs) = map Fin (insort r rs)"
  by (induction rs) auto

lemma py_sorted_Fin: "py_sorted (map Fin rs) = map Fin (sort rs)"
  unfolding py_sorted_def by (induction rs) (simp_all add: insort_lt_Fin)

lemma foldl_max_Fin:
  "foldl (\<lambda>m v. if flt m v then v else m) (Fin m) (map Fin rs) = Fin (fold max rs m)"
  by (induction rs arbitrary: m) (auto simp add: max_def)

lemma foldl_min_Fin:
  "foldl (\<lambda>m v. if flt v m then v else m) (Fin m) (map Fin rs) = Fin (fold min rs m)"
  by (induction rs arbitrary: m) (auto simp add: min_def)

lemma py_max_Fin: "rs \<noteq> [] \<Longrightarrow> py_max (map Fin rs) = Inr (Fin (Max (set rs)))"
proof (cases rs)
  case (Cons a list)
  have "fold max list a = Max (set (a # list))" by (simp only: Max.set_eq_fold)
  then show ?thesis using Cons by (simp add: foldl_max_Fin)
qed simp

lemma py_min_Fin: "rs \<noteq> [] \<Longrightarrow> py_min (map Fin rs) = Inr (Fin (Min (set rs)))"
proof (cases rs)
  case (Cons a list)
  have "fold min list a = Min (set (a # list))" by (simp only: Min.set_eq_fold)
  then show ?thesis using Cons by (simp add: foldl_min_Fin)
qed simp

lemma py_index_in_range:
  "0 \<le> i \<Longrightarrow> i < int (length xs) \<Longrightarrow> py_index xs i = Inr (xs ! nat i)"
  by (simp add: py_index_def)

lemma median_of_odd:
  assumes "odd (length xs)"
  shows "median_of xs = Inr (xs ! (length xs div 2))"
proof -
  have "0 < length xs" using assms by (cases xs) auto
  then have "int (length xs) div 2 < int (length xs)" by arith
  moreover have "nat (int (length xs) div 2) = length xs div 2" by (simp add: nat_div_distrib)
  moreover have "int (length xs) mod 2 \<noteq> 0" using assms by presburger
  ultimately show ?thesis
    by (simp add: median_of_def Let_def py_index_in_range)
qed

lemma median_of_even:
  assumes "even (length xs)" "xs \<noteq> []"
  shows "median_of xs =
    truediv_int (fadd (xs ! (length xs div 2)) (xs ! (length xs div 2 - 1))) 2"
proof -
  have "length xs \<noteq> 0" "length xs \<noteq> 1" using assms by auto
  then have pos: "2 \<le> length xs" by arith
  then have 1: "int (length xs) div 2 < int (length xs)" "0 \<le> int (length xs) div 2 - 1"
    "int (length xs) div 2 - 1 < int (length xs)" by arith+
  have 2: "nat (int (length xs) div 2) = length xs div 2"
    "nat (int (length xs) div 2 - 1) = length xs div 2 - 1"
    by (simp_all add: nat_div_distrib nat_diff_distrib')
  have 3: "int (length xs) mod 2 = 0" using assms(1) by presburger
  show ?thesis
    using 1 2 by (simp add: median_of_def Let_def 3 py_index_in_range)
qed

lemma truediv_length:
  assumes "0 < n" "n < 2 ^ 53"
  shows "\<exists>m. truediv_int x (int n) = Inr m"
proof -
  have "int n < int (2 ^ 53)" using assms(2) by (simp only: of_nat_less_iff)
  then have "\<bar>int n\<bar> < 2 ^ 53" by simp
  then have "float_of_int (int n) = Inr (Fin (of_int (int n)))" by (rule float_of_int_exact)
  then show ?thesis using assms(1) by (simp add: truediv_int_def truediv_def)
qed


lemma truediv_int_2: "\<exists>m. truediv_int x 2 = Inr m"
  using float_of_int_exact[of 2] by (simp add: truediv_int_def truediv_def)

lemma median_of_total:
  assumes "xs \<noteq> []"
  shows "\<exists>m. median_of xs = Inr m"
proof (cases "odd (length xs)")
  case True
  then show ?thesis by (simp add: median_of_odd)
next
  case False
  then show ?thesis using assms truediv_int_2 by (simp add: median_of_even)
qed

lemma sort_not_Nil: "rs \<noteq> [] \<Longrightarrow> map Fin (sort rs) \<noteq> []"
  by (metis length_sort length_0_conv map_is_Nil_conv)

lemma velocity_statistics_Fin:
  assumes "rs \<noteq> []" "length rs < 2 ^ 53"
  shows "\<exists>mean median.
    truediv_int (py_sum (map Fin rs)) (int (length rs)) = Inr mean \<and>
    median_of (map Fin (sort rs)) = Inr median \<and>
    velocity_statistics (map Fin rs) =
      Inr \<lparr>fastest_velocity = Fin (Max (set rs)), slowest_velocity = Fin (Min (set rs)),
           mean_velocity = mean, median_velocity = median\<rparr>"
proof -
  obtain mean where mean: "truediv_int (py_sum (map Fin rs)) (int (length rs)) = Inr mean"
    using truediv_length[of "length rs"] assms by auto
  obtain median where median: "median_of (map Fin (sort rs)) = Inr median"
    using median_of_total[OF sort_not_Nil[OF assms(1)]] by auto
  show ?thesis
    using mean median assms(1)
    by (simp add: velocity_statistics_def py_max_Fin py_min_Fin py_sorted_Fin)
qed

lemma sorted_wrt_fle_Fin: "sorted_wrt fle (map Fin rs) = sorted rs"
  by (induction rs) auto

text \<open>
  Claim C4. For a non-empty list of finite floats, \<^verbatim>\<open>display_asteroid_properties\<close> computes
  its aggregates without an error, and its median is the order statistic of the
  list sorted in ascending order (\<open>py_sorted V\<close> is ascending and a permutation of
  \<open>V\<close>): the middle element when the count is odd, and the floating-point average
  \<^verbatim>\<open>(s[n // 2] + s[n // 2 - 1]) / 2\<close> of the two central elements when it is even.
\<close>

theorem median_is_order_statistic:
  assumes "V \<noteq> []" "\<forall>v\<in>set V. finite_float v" "length V < 2 ^ 53"
  shows "\<exists>s. velocity_statistics V = Inr s \<and>
    sorted_wrt fle (py_sorted V) \<and> mset (py_sorted V) = mset V \<and>
    (if odd (length V) then median_velocity s = py_sorted V ! (length V div 2)
     else truediv_int
            (fadd (py_sorted V ! (length V div 2)) (py_sorted V ! (length V div 2 - 1))) 2 =
          Inr (median_velocity s))"
proof -
  obtain rs where rs: "V = map Fin rs" using finite_floats_map[OF assms(2)] by blast
  have ne: "rs \<noteq> []" and len: "length rs < 2 ^ 53" using assms rs by auto
  from velocity_statistics_Fin[OF ne len] obtain mean median where
    m: "median_of (map Fin (sort rs)) = Inr median" and
    s: "velocity_statistics (map Fin rs) =
      Inr \<lparr>fastest_velocity = Fin (Max (set rs)), slowest_velocity = Fin (Min (set rs)),
           mean_velocity = mean, median_velocity = median\<rparr>"
    by blast
  have "if odd (length rs) then median = map Fin (sort rs) ! (length rs div 2)
     else truediv_int (fadd (map Fin (sort rs) ! (length rs div 2))
            (map Fin (sort rs) ! (length rs div 2 - 1))) 2 = Inr median"
    using m median_of_odd[of "map Fin (sort rs)"]
      median_of_even[OF _ sort_not_Nil[OF ne]]
    by (auto simp del: nth_map)
  then show ?thesis
    unfolding rs using s
    by (auto simp add: py_sorted_Fin sorted_wrt_fle_Fin simp del: nth_map split: if_splits)
qed

text \<open>
  Claim C8, as the code has it. For a non-empty list of finite floats of magnitude
  below \<open>2 ^ 1023\<close>, the slowest velocity is at most the median and the median at
  most the fastest velocity. Nothing of the kind is stated of the mean, which is a
  rounded quotient of a rounded sum.
\<close>

theorem median_between_extremes:
  assumes "V \<noteq> []" "\<forall>v\<in>set V. finite_float v \<and> below_overflow v" "length V < 2 ^ 53"
  shows "\<exists>s. velocity_statistics V = Inr s \<and>
    fle (slowest_velocity s) (median_velocity s) \<and>
    fle (median_velocity s) (fastest_velocity s)"
proof -
  have "\<forall>v\<in>set V. finite_float v" using assms(2) by blast
  then obtain rs where rs: "V = map Fin rs" "\<forall>r\<in>set rs. rnd r = Fin r"
    using finite_floats_map by blast
  have small: "\<forall>r\<in>set rs. \<bar>r\<bar> < pow2 1023"
    using assms(2) rs(1) by (auto simp add: below_overflow_def)
  have ne: "rs \<noteq> []" and len: "length rs < 2 ^ 53" using assms rs by auto
  from velocity_statistics_Fin[OF ne len] obtain mean median where
    m: "median_of (map Fin (sort rs)) = Inr median" and
    s: "velocity_statistics (map Fin rs) =
      Inr \<lparr>fastest_velocity = Fin (Max (set rs)), slowest_velocity = Fin (Min (set rs)),
           mean_velocity = mean, median_velocity = median\<rparr>"
    by blast
  let ?ss = "sort rs"
  let ?n = "length rs"
  have bounds: "Min (set rs) \<le> ?ss ! i \<and> ?ss ! i \<le> Max (set rs)" if "i < ?n" for i
  proof -
    have "?ss ! i \<in> set rs" using that by (metis length_sort nth_mem set_sort)
    then show ?thesis by simp
  qed
  have "\<exists>m. median = Fin m \<and> Min (set rs) \<le> m \<and> m \<le> Max (set rs)"
  proof (cases "odd ?n")
    case True
    then have "?n div 2 < ?n" by (cases rs) auto
    moreover have "median = Fin (?ss ! (?n div 2))"
      using m True median_of_odd[of "map Fin ?ss"] \<open>?n div 2 < ?n\<close> by simp
    ultimately show ?thesis using bounds by blast
  next
    case False
    have "?n \<noteq> 0" "?n \<noteq> 1" using ne False by auto
    then have i: "?n div 2 - 1 < ?n" "?n div 2 < ?n" "?n div 2 - 1 \<le> ?n div 2" by arith+
    let ?a = "?ss ! (?n div 2 - 1)" and ?b = "?ss ! (?n div 2)"
    have ab: "?a \<in> set rs" "?b \<in> set rs"
      using i by (metis length_sort nth_mem set_sort)+
    have le: "?a \<le> ?b"
      using i by (intro sorted_nth_mono) simp_all
    from average_between[OF _ _ le] ab rs(2) small
    obtain x where x: "truediv_int (fadd (Fin ?b) (Fin ?a)) 2 = Inr (Fin x)" "?a \<le> x" "x \<le> ?b"
      by blast
    have "median_of (map Fin ?ss) = truediv_int (fadd (Fin ?b) (Fin ?a)) 2"
      using median_of_even[OF _ sort_not_Nil[OF ne]] False i by simp
    then have "median = Fin x" using m x(1) by simp
    moreover have "Min (set rs) \<le> ?a" "?b \<le> Max (set rs)" using bounds i by blast+
    ultimately show ?thesis using x by (intro exI[of _ x]) simp
  qed
  then show ?thesis unfolding rs(1) using s by auto
qed


text \<open>
  Evaluating a rounding at a given rational: \<open>e\<close> is the exponent of its binade.
\<close>

lemma rnd_eval:
  assumes "pow2 e \<le> x" "x < pow2 (e + 1)" "- 1022 \<le> e" "e \<le> 1022"
  shows "rnd x = Fin (of_int (round_half_even (x / pow2 (e - 52))) * pow2 (e - 52))"
proof -
  have x: "0 < x" using assms(1) pow2_pos[of e] by simp
  have e: "ilog2 x = e" using assms by (intro ilog2_unique)
  have "nearest x \<le> pow2 (e + 1)"
    using nearest_upper[OF x] assms(3) by (simp add: e)
  also have "\<dots> \<le> pow2 1023" using assms(4) by (intro pow2_mono) simp
  also have "\<dots> < pow2 1024" by (intro pow2_strict_mono) simp
  finally have "nearest x < pow2 1024" .
  moreover have "- pow2 1024 < nearest x"
    using nearest_nonneg[of x] x pow2_pos[of 1024] by simp
  ultimately show ?thesis
    using nearest_eval[OF assms(1-3)] by (simp add: rnd_eq_Fin_iff)
qed

lemma eval_simps:
  "py_sum xs = foldl fadd (Fin 0) xs"
  "py_sorted xs = foldr insort_lt xs []"
  by (simp_all add: py_sum_def py_sorted_def)

lemma rnd_f01: "rnd (3602879701896397 / 36028797018963968) = Fin (3602879701896397 / 36028797018963968)"
  by (subst rnd_eval[of "- 4"]) (simp_all add: pow2_def round_half_even_def Let_def)

lemma rnd_f02: "rnd (3602879701896397 / 18014398509481984) = Fin (3602879701896397 / 18014398509481984)"
  by (subst rnd_eval[of "- 3"]) (simp_all add: pow2_def round_half_even_def Let_def)

lemma rnd_f03: "rnd (5404319552844595 / 18014398509481984) = Fin (5404319552844595 / 18014398509481984)"
  by (subst rnd_eval[of "- 2"]) (simp_all add: pow2_def round_half_even_def Let_def)

lemma statistics_tenths:
  "velocity_statistics [f01, f01, f01] =
     Inr \<lparr>fastest_velocity = f01, slowest_velocity = f01,
          mean_velocity = Fin (7205759403792795 / 72057594037927936),
          median_velocity = f01\<rparr>"
proof -
  have 1: "rnd (10808639105689191 / 36028797018963968) = Fin (1351079888211149 / 4503599627370496)"
    by (subst rnd_eval[of "- 2"]) (simp_all add: pow2_def round_half_even_def Let_def)
  have 2: "rnd (1351079888211149 / 13510798882111488) = Fin (7205759403792795 / 72057594037927936)"
    by (subst rnd_eval[of "- 4"]) (simp_all add: pow2_def round_half_even_def Let_def)
  have 3: "float_of_int 3 = Inr (Fin 3)" using float_of_int_exact[of 3] by simp
  show ?thesis
    by (simp add: velocity_statistics_def f01_def eval_simps rnd_f01 rnd_f02 1 2 3
        truediv_int_def truediv_def median_of_def py_index_def Let_def)
qed


lemma rnd_numeral: "numeral n < (2::int) ^ 53 \<Longrightarrow> rnd (numeral n) = Fin (numeral n)"
  using rnd_of_int[of "numeral n"] by simp

lemma rnd_1: "rnd 1 = Fin 1"
  using rnd_of_int[of 1] by simp

lemma float_of_int_numeral:
  "numeral n < (2::int) ^ 53 \<Longrightarrow> float_of_int (numeral n) = Inr (Fin (numeral n))"
  using float_of_int_exact[of "numeral n"] by simp

lemma float_of_int_1: "float_of_int 1 = Inr (Fin 1)"
  using float_of_int_exact[of 1] by simp

lemmas statistics_eval =
  velocity_statistics_def eval_simps truediv_int_def truediv_def median_of_def py_index_def
  Let_def float_of_int_numeral float_of_int_1 rnd_numeral rnd_1

lemma statistics_examples:
  "velocity_statistics [Fin 5] =
     Inr \<lparr>fastest_velocity = Fin 5, slowest_velocity = Fin 5, mean_velocity = Fin 5,
          median_velocity = Fin 5\<rparr>"
  "velocity_statistics [Fin 3, Fin 7] =
     Inr \<lparr>fastest_velocity = Fin 7, slowest_velocity = Fin 3, mean_velocity = Fin 5,
          median_velocity = Fin 5\<rparr>"
  "velocity_statistics [Fin 1, Fin 2, Fin 9] =
     Inr \<lparr>fastest_velocity = Fin 9, slowest_velocity = Fin 1, mean_velocity = Fin 4,
          median_velocity = Fin 2\<rparr>"
  by (simp_all add: statistics_eval)

lemma statistics_ascending:
  "velocity_statistics [f01, f02, f03] =
     Inr \<lparr>fastest_velocity = f03, slowest_velocity = f01,
          mean_velocity = Fin (7205759403792795 / 36028797018963968),
          median_velocity = f02\<rparr>"
proof -
  have 1: "rnd (10808639105689191 / 36028797018963968) = Fin (1351079888211149 / 4503599627370496)"
    by (subst rnd_eval[of "- 2"]) (simp_all add: pow2_def round_half_even_def Let_def)
  have 2: "rnd (10808639105689191 / 18014398509481984) = Fin (1351079888211149 / 2251799813685248)"
    by (subst rnd_eval[of "- 1"]) (simp_all add: pow2_def round_half_even_def Let_def)
  have 3: "rnd (1351079888211149 / 6755399441055744) = Fin (7205759403792795 / 36028797018963968)"
    by (subst rnd_eval[of "- 3"]) (simp_all add: pow2_def round_half_even_def Let_def)
  show ?thesis
    by (simp add: f01_def f02_def f03_def statistics_eval rnd_f01 1 2 3)
qed

lemma statistics_descending:
  "velocity_statistics [f03, f02, f01] =
     Inr \<lparr>fastest_velocity = f03, slowest_velocity = f01,
          mean_velocity = Fin (7205759403792793 / 36028797018963968),
          median_velocity = f02\<rparr>"
proof -
  have 1: "rnd (1 / 2) = Fin (1 / 2)"
    by (subst rnd_eval[of "- 1"]) (simp_all add: pow2_def round_half_even_def Let_def)
  have 2: "rnd (21617278211378381 / 36028797018963968) = Fin (5404319552844595 / 9007199254740992)"
    by (subst rnd_eval[of "- 1"]) (simp_all add: pow2_def round_half_even_def Let_def)
  have 3: "rnd (5404319552844595 / 27021597764222976) = Fin (7205759403792793 / 36028797018963968)"
    by (subst rnd_eval[of "- 3"]) (simp_all add: pow2_def round_half_even_def Let_def)
  show ?thesis
    by (simp add: f01_def f02_def f03_def statistics_eval rnd_f03 1 2 3)
qed


lemma rnd_huge: "rnd (2 ^ 1023) = Fin (2 ^ 1023)"
proof -
  have "nearest (2 ^ 1023) = 2 ^ 1023"
    by (subst nearest_eval[of 1023]) (simp_all add: pow2_def round_half_even_def Let_def)
  then show ?thesis by (simp add: rnd_eq_Fin_iff pow2_def)
qed

lemma rnd_minus_huge: "rnd (- (2 ^ 1023)) = Fin (- (2 ^ 1023))"
proof -
  have "nearest (2 ^ 1023) = 2 ^ 1023"
    by (subst nearest_eval[of 1023]) (simp_all add: pow2_def round_half_even_def Let_def)
  then have "nearest (- (2 ^ 1023)) = - (2 ^ 1023)" by (simp only: nearest_minus)
  then show ?thesis by (simp add: rnd_eq_Fin_iff pow2_def)
qed

lemma rnd_overflow: "rnd (2 ^ 1024) = PInf"
proof -
  have "nearest (2 ^ 1024) = 2 ^ 1024"
    by (subst nearest_eval[of 1024]) (simp_all add: pow2_def round_half_even_def Let_def)
  then show ?thesis by (simp add: rnd_def pow2_def)
qed

lemma rnd_0: "rnd 0 = Fin 0"
  by (simp add: rnd_def pow2_def)

lemma rnd_third_of_huge: "\<exists>r. rnd (2 ^ 1023 / 3) = Fin r"
proof -
  have "(0::rat) \<le> 2 ^ 1023 / 3" "(2::rat) ^ 1023 / 3 \<le> 2 ^ 1023" by simp_all
  from rnd_between[OF rnd_0 rnd_huge this] show ?thesis by blast
qed

lemma statistics_huge_pair:
  "velocity_statistics [huge, huge] =
     Inr \<lparr>fastest_velocity = huge, slowest_velocity = huge, mean_velocity = PInf,
          median_velocity = PInf\<rparr>"
  using rnd_huge rnd_overflow
  by (simp add: huge_def statistics_eval)

lemma statistics_huge_cancel_late:
  "velocity_statistics [huge, huge, minus_huge] =
     Inr \<lparr>fastest_velocity = huge, slowest_velocity = minus_huge, mean_velocity = PInf,
          median_velocity = huge\<rparr>"
  using rnd_huge rnd_overflow
  by (simp add: huge_def minus_huge_def statistics_eval)

lemma statistics_huge_cancel_early:
  "\<exists>r. velocity_statistics [huge, minus_huge, huge] =
     Inr \<lparr>fastest_velocity = huge, slowest_velocity = minus_huge, mean_velocity = Fin r,
          median_velocity = huge\<rparr>"
  using rnd_huge rnd_third_of_huge rnd_0
  by (auto simp add: huge_def minus_huge_def statistics_eval)


text \<open>
  Claim C9, as the code has it. For a non-empty list of finite floats and every
  permutation of it, the fastest velocity, the slowest velocity and the median are
  the same on both.
\<close>

theorem extremes_and_median_permutation_invariant:
  assumes "mset V' = mset V" "V \<noteq> []" "\<forall>v\<in>set V. finite_float v" "length V < 2 ^ 53"
  shows "\<exists>s s'. velocity_statistics V = Inr s \<and> velocity_statistics V' = Inr s' \<and>
    fastest_velocity s' = fastest_velocity s \<and>
    slowest_velocity s' = slowest_velocity s \<and>
    median_velocity s' = median_velocity s"
proof -
  obtain rs where rs: "V = map Fin rs" using finite_floats_map[OF assms(3)] by blast
  have "set V' = set V" using assms(1) by (rule mset_eq_setD)
  then have "\<forall>v\<in>set V'. finite_float v" using assms(3) by simp
  then obtain rs' where rs': "V' = map Fin rs'" using finite_floats_map by blast
  let ?un = "\<lambda>v. case v of Fin r \<Rightarrow> r | _ \<Rightarrow> 0"
  have "mset (map ?un V') = mset (map ?un V)"
    using assms(1) by (metis mset_map)
  then have perm: "mset rs' = mset rs" by (simp add: rs rs' comp_def)
  have ne: "rs \<noteq> []" "rs' \<noteq> []" and len: "length rs < 2 ^ 53" "length rs' < 2 ^ 53"
    using assms(2,4) rs mset_eq_length[OF perm] by auto
  have same: "set rs' = set rs" "sort rs' = sort rs"
    using perm mset_eq_setD apply blast
    using perm by (intro properties_for_sort) simp_all
  from velocity_statistics_Fin[OF ne(1) len(1)] obtain mean median where
    m: "median_of (map Fin (sort rs)) = Inr median" and
    s: "velocity_statistics (map Fin rs) =
      Inr \<lparr>fastest_velocity = Fin (Max (set rs)), slowest_velocity = Fin (Min (set rs)),
           mean_velocity = mean, median_velocity = median\<rparr>"
    by blast
  from velocity_statistics_Fin[OF ne(2) len(2)] obtain mean' median' where
    m': "median_of (map Fin (sort rs')) = Inr median'" and
    s': "velocity_statistics (map Fin rs') =
      Inr \<lparr>fastest_velocity = Fin (Max (set rs')), slowest_velocity = Fin (Min (set rs')),
           mean_velocity = mean', median_velocity = median'\<rparr>"
    by blast
  have "median' = median" using m m' same(2) by simp
  then show ?thesis unfolding rs rs' using s s' same(1) by simp
qed

lemma finite_huge: "finite_float huge" "finite_float minus_huge"
  using rnd_huge rnd_minus_huge by (simp_all add: finite_float_def huge_def minus_huge_def)

lemma finite_examples:
  "finite_float f01" "finite_float f02" "finite_float f03"
  "finite_float (Fin 1)" "numeral n < (2::int) ^ 53 \<Longrightarrow> finite_float (Fin (numeral n))"
  by (simp_all add: finite_float_def f01_def f02_def f03_def rnd_f01 rnd_f02 rnd_f03
      rnd_1 rnd_numeral)

text \<open>
  The three examples of the claim: the medians of \<^verbatim>\<open>[5.0]\<close>, \<^verbatim>\<open>[3.0, 7.0]\<close> and
  \<^verbatim>\<open>[1.0, 2.0, 9.0]\<close> are \<^verbatim>\<open>5.0\<close>, \<^verbatim>\<open>5.0\<close> and \<^verbatim>\<open>2.0\<close>.
\<close>

theorem median_examples:
  "(\<exists>s. velocity_statistics [Fin 5] = Inr s \<and> median_velocity s = Fin 5) \<and>
   (\<exists>s. velocity_statistics [Fin 3, Fin 7] = Inr s \<and> median_velocity s = Fin 5) \<and>
   (\<exists>s. velocity_statistics [Fin 1, Fin 2, Fin 9] = Inr s \<and> median_velocity s = Fin 2)"
proof -
  have 1: "\<forall>v\<in>set [Fin 5]. finite_float v" "\<forall>v\<in>set [Fin 3, Fin 7]. finite_float v"
    "\<forall>v\<in>set [Fin 1, Fin 2, Fin 9]. finite_float v"
    by (simp_all add: finite_examples)
  have 2: "rnd 10 = Fin 10" "rnd 5 = Fin 5" by (simp_all add: rnd_numeral)
  have 3: "float_of_int 2 = Inr (Fin 2)" by (simp add: float_of_int_numeral)
  show ?thesis
    using median_is_order_statistic[OF _ 1(1)] median_is_order_statistic[OF _ 1(2)]
      median_is_order_statistic[OF _ 1(3)]
    by (auto simp add: eval_simps 2 3 truediv_int_def truediv_def)
qed

text \<open>
  A list of even length, whose median is an average.
\<close>

theorem median_between_extremes_witness:
  "\<exists>s. velocity_statistics [Fin 3, Fin 7] = Inr s \<and>
     fle (slowest_velocity s) (median_velocity s) \<and>
     fle (median_velocity s) (fastest_velocity s)"
proof -
  have "\<forall>v\<in>set [Fin 3, Fin 7]. finite_float v \<and> below_overflow v"
    by (simp add: finite_examples below_overflow_def pow2_def)
  from median_between_extremes[OF _ this] show ?thesis by simp
qed

text \<open>
  Claim C8 as the specification states it fails. The mean of three times \<^verbatim>\<open>0.1\<close> is
  \<^verbatim>\<open>0.10000000000000002\<close>, above the fastest velocity \<^verbatim>\<open>0.1\<close>: the sum rounds up to
  \<^verbatim>\<open>0.30000000000000004\<close> and its third rounds up again. And the median of twice
  \<open>2 ^ 1023\<close> is infinite, since the sum of the two central elements overflows.
\<close>

theorem mean_above_fastest:
  "velocity_statistics [f01, f01, f01] =
     Inr \<lparr>fastest_velocity = f01, slowest_velocity = f01,
          mean_velocity = Fin (7205759403792795 / 72057594037927936),
          median_velocity = f01\<rparr> \<and>
   \<not> fle (Fin (7205759403792795 / 72057594037927936)) f01 \<and>
   velocity_statistics [huge, huge] =
     Inr \<lparr>fastest_velocity = huge, slowest_velocity = huge, mean_velocity = PInf,
          median_velocity = PInf\<rparr> \<and>
   \<not> fle PInf huge \<and> finite_float f01 \<and> finite_float huge"
  by (simp add: statistics_tenths statistics_huge_pair finite_examples finite_huge)
    (simp add: f01_def huge_def)

text \<open>
  The list \<^verbatim>\<open>[0.1, 0.2, 0.3]\<close> and its reverse.
\<close>

theorem extremes_and_median_permutation_invariant_witness:
  "\<exists>s s'. velocity_statistics [f01, f02, f03] = Inr s \<and>
     velocity_statistics [f03, f02, f01] = Inr s' \<and>
     fastest_velocity s' = fastest_velocity s \<and>
     slowest_velocity s' = slowest_velocity s \<and>
     median_velocity s' = median_velocity s"
proof -
  have "\<forall>v\<in>set [f01, f02, f03]. finite_float v" by (simp add: finite_examples)
  from extremes_and_median_permutation_invariant[OF _ _ this, of "[f03, f02, f01]"]
  show ?thesis by simp
qed

text \<open>
  Claim C9 as the specification states it fails for the mean. The mean of
  \<^verbatim>\<open>[0.1, 0.2, 0.3]\<close> is \<^verbatim>\<open>0.20000000000000004\<close> and the mean of \<^verbatim>\<open>[0.3, 0.2, 0.1]\<close> is
  \<^verbatim>\<open>0.19999999999999998\<close>: the additions round differently in the two orders. With
  values near the overflow threshold the order decides whether the sum is infinite.
\<close>

theorem mean_depends_on_order:
  "mset [f03, f02, f01] = mset [f01, f02, f03] \<and>
   velocity_statistics [f01, f02, f03] =
     Inr \<lparr>fastest_velocity = f03, slowest_velocity = f01,
          mean_velocity = Fin (7205759403792795 / 36028797018963968),
          median_velocity = f02\<rparr> \<and>
   velocity_statistics [f03, f02, f01] =
     Inr \<lparr>fastest_velocity = f03, slowest_velocity = f01,
          mean_velocity = Fin (7205759403792793 / 36028797018963968),
          median_velocity = f02\<rparr> \<and>
   mset [huge, minus_huge, huge] = mset [huge, huge, minus_huge] \<and>
   velocity_statistics [huge, huge, minus_huge] =
     Inr \<lparr>fastest_velocity = huge, slowest_velocity = minus_huge, mean_velocity = PInf,
          median_velocity = huge\<rparr> \<and>
   (\<exists>r. velocity_statistics [huge, minus_huge, huge] =
     Inr \<lparr>fastest_velocity = huge, slowest_velocity = minus_huge, mean_velocity = Fin r,
          median_velocity = huge\<rparr>) \<and>
   finite_float f01 \<and> finite_float f02 \<and> finite_float f03 \<and>
   finite_float huge \<and> finite_float minus_huge"
  using statistics_ascending statistics_descending statistics_huge_cancel_late
    statistics_huge_cancel_early finite_examples(1-3) finite_huge
  by (simp add: add.commute add.left_commute)

end
